(* ===== verification/BT_Prelude.thy ===== *)
theory BT_Prelude
  imports Complex_Main
begin

text \<open>
  Shared vocabulary of the behaviour-tree development: the tri-state result of
  \<open>BehNode::update\<close> (src/w2/behaviourTree.h), the shape of a node's
  update and react methods as state transformers that may fail with an error, the
  erase-at-index operation the utility selector uses on its working copy, and the
  collection \<open>bt_simps\<close> of generic list and sum lemmas the component proofs
  share.
\<close>

named_theorems bt_simps "generic list and sum facts used by the component proofs"

section \<open>Results and node methods\<close>

text \<open>\<open>enum BehResult { BEH_SUCCESS, BEH_FAIL, BEH_RUNNING }\<close>.\<close>

datatype beh_result = BEH_SUCCESS | BEH_FAIL | BEH_RUNNING

text \<open>
  \<open>BehNode::update(ecs, entity, bb)\<close> reads and writes the world and the
  blackboard and returns a result. The model threads the whole mutable state
  \<open>'s\<close> through the call. A call may also fail fast (a blackboard read with the
  wrong type, a sampler that never returns): that is an \<open>Inl\<close> error, which
  every caller propagates as the exception would.
  \<open>BehNode::react(ecs, entity, bb, event)\<close> returns nothing and only changes
  the state.
\<close>

text \<open>
  A \<open>flecs::entity\<close> handle is its numeric id; id 0 is the null entity that a
  default-constructed handle holds.
\<close>

type_synonym eid = nat

type_synonym ('e, 's) runner = "'s \<Rightarrow> 'e + beh_result \<times> 's"

type_synonym ('e, 's) reactor = "'s \<Rightarrow> 'e + 's"

text \<open>
  \<open>keeps P Q n\<close>: from a state satisfying \<open>P\<close>, the method \<open>n\<close> either fails
  with an error satisfying \<open>Q\<close> or returns in a state satisfying \<open>P\<close>; and the
  same for a reactor. Invariants of whole trees are stated with it, and every
  composite passes it on from its children to itself.
\<close>

definition keeps :: "('s \<Rightarrow> bool) \<Rightarrow> ('e \<Rightarrow> bool) \<Rightarrow> ('e, 's) runner \<Rightarrow> bool" where
  "keeps P Q n \<longleftrightarrow> (\<forall>s. P s \<longrightarrow> (case n s of Inl err \<Rightarrow> Q err | Inr (_, s') \<Rightarrow> P s'))"

definition rkeeps :: "('s \<Rightarrow> bool) \<Rightarrow> ('e \<Rightarrow> bool) \<Rightarrow> ('e, 's) reactor \<Rightarrow> bool" where
  "rkeeps P Q r \<longleftrightarrow> (\<forall>s. P s \<longrightarrow> (case r s of Inl err \<Rightarrow> Q err | Inr s' \<Rightarrow> P s'))"

section \<open>Erasing one element of a vector\<close>

text \<open>\<open>std::vector::erase(begin() + i)\<close>.\<close>

definition remove_nth :: "nat \<Rightarrow> 'a list \<Rightarrow> 'a list" where
  "remove_nth i xs = take i xs @ drop (Suc i) xs"

lemma length_remove_nth [bt_simps]:
  "i < length xs \<Longrightarrow> length (remove_nth i xs) = length xs - 1"
  by (simp add: remove_nth_def)

lemma set_remove_nth_subset [bt_simps]: "set (remove_nth i xs) \<subseteq> set xs"
  by (auto simp: remove_nth_def dest: in_set_takeD in_set_dropD)

lemma remove_nth_Cons_0 [simp]: "remove_nth 0 (x # xs) = xs"
  by (simp add: remove_nth_def)

lemma remove_nth_Cons_Suc [simp]: "remove_nth (Suc i) (x # xs) = x # remove_nth i xs"
  by (simp add: remove_nth_def)

lemma distinct_remove_nth [bt_simps]: "distinct xs \<Longrightarrow> distinct (remove_nth i xs)"
proof (induction xs arbitrary: i)
  case Nil
  then show ?case by (simp add: remove_nth_def)
next
  case (Cons x xs)
  then show ?case
    by (cases i) (auto dest: set_remove_nth_subset [THEN subsetD])
qed

lemma remove_nth_notin [bt_simps]:
  "distinct xs \<Longrightarrow> i < length xs \<Longrightarrow> xs ! i \<notin> set (remove_nth i xs)"
proof (induction xs arbitrary: i)
  case Nil
  then show ?case by simp
next
  case (Cons x xs)
  then show ?case
    by (cases i) (auto dest: set_remove_nth_subset [THEN subsetD])
qed

lemma map_remove_nth [bt_simps]: "map f (remove_nth i xs) = remove_nth i (map f xs)"
  by (simp add: remove_nth_def take_map drop_map)

lemma nth_fst_in [bt_simps]: "k < length xs \<Longrightarrow> xs ! k = (n, rest) \<Longrightarrow> n \<in> fst ` set xs"
  using nth_mem [of k xs] by (force intro: rev_image_eqI)

section \<open>Propagating an error\<close>

lemma sum_case_Inl_eq [bt_simps]:
  "(case r of Inl e \<Rightarrow> Inl e | Inr v \<Rightarrow> f v) = Inl e' \<longleftrightarrow>
   r = Inl e' \<or> (\<exists>v. r = Inr v \<and> f v = Inl e')"
  by (cases r) auto

lemma sum_case_Inr_eq [bt_simps]:
  "(case r of Inl e \<Rightarrow> Inl e | Inr v \<Rightarrow> f v) = Inr w \<longleftrightarrow>
   (\<exists>v. r = Inr v \<and> f v = Inr w)"
  by (cases r) auto

section \<open>Invariants of node methods\<close>

lemma keepsI:
  "(\<And>s. P s \<Longrightarrow> case n s of Inl err \<Rightarrow> Q err | Inr (_, s') \<Rightarrow> P s') \<Longrightarrow> keeps P Q n"
  by (simp add: keeps_def)

lemma keepsD:
  "keeps P Q n \<Longrightarrow> P s \<Longrightarrow> case n s of Inl err \<Rightarrow> Q err | Inr (_, s') \<Rightarrow> P s'"
  by (simp add: keeps_def)

lemma keeps_Inl: "keeps P Q n \<Longrightarrow> P s \<Longrightarrow> n s = Inl err \<Longrightarrow> Q err"
  by (drule keepsD) auto

lemma keeps_Inr: "keeps P Q n \<Longrightarrow> P s \<Longrightarrow> n s = Inr (r, s') \<Longrightarrow> P s'"
  by (drule keepsD) auto

lemma keeps_return [simp]: "keeps P Q (\<lambda>s. Inr (r, s))"
  by (simp add: keeps_def)

lemma keeps_bind:
  assumes n: "keeps P Q n" and k: "\<And>r. keeps P Q (k r)"
  shows "keeps P Q (\<lambda>s. case n s of Inl e \<Rightarrow> Inl e | Inr (r, s') \<Rightarrow> k r s')"
proof (rule keepsI)
  fix s assume P: "P s"
  show "case (case n s of Inl e \<Rightarrow> Inl e | Inr (r, s') \<Rightarrow> k r s') of
          Inl err \<Rightarrow> Q err | Inr (_, s'') \<Rightarrow> P s''"
  proof (cases "n s")
    case (Inl e)
    then show ?thesis using keeps_Inl [OF n P] by simp
  next
    case (Inr v)
    obtain r s1 where v: "v = (r, s1)" by (cases v)
    have "P s1" using keeps_Inr [OF n P] Inr v by simp
    then show ?thesis using keepsD [OF k, of s1 r] Inr v by simp
  qed
qed

lemma rkeepsI:
  "(\<And>s. P s \<Longrightarrow> case r s of Inl err \<Rightarrow> Q err | Inr s' \<Rightarrow> P s') \<Longrightarrow> rkeeps P Q r"
  by (simp add: rkeeps_def)

lemma rkeepsD:
  "rkeeps P Q r \<Longrightarrow> P s \<Longrightarrow> case r s of Inl err \<Rightarrow> Q err | Inr s' \<Rightarrow> P s'"
  by (simp add: rkeeps_def)

lemma rkeeps_return [simp]: "rkeeps P Q Inr"
  by (simp add: rkeeps_def)

lemma rkeeps_Inl: "rkeeps P Q r \<Longrightarrow> P s \<Longrightarrow> r s = Inl err \<Longrightarrow> Q err"
  by (drule rkeepsD) auto

lemma rkeeps_Inr: "rkeeps P Q r \<Longrightarrow> P s \<Longrightarrow> r s = Inr s' \<Longrightarrow> P s'"
  by (drule rkeepsD) auto

lemma rkeeps_bind:
  assumes r: "rkeeps P Q r" and k: "rkeeps P Q k"
  shows "rkeeps P Q (\<lambda>s. case r s of Inl e \<Rightarrow> Inl e | Inr s' \<Rightarrow> k s')"
proof (rule rkeepsI)
  fix s assume P: "P s"
  show "case (case r s of Inl e \<Rightarrow> Inl e | Inr s' \<Rightarrow> k s') of Inl err \<Rightarrow> Q err | Inr s'' \<Rightarrow> P s''"
  proof (cases "r s")
    case (Inl e)
    then show ?thesis using rkeeps_Inl [OF r P] by simp
  next
    case (Inr s1)
    then show ?thesis using rkeepsD [OF k rkeeps_Inr [OF r P Inr]] by simp
  qed
qed

end
