(* ===== verification/World.thy ===== *)
theory World
  imports BT_Prelude
begin

text \<open>
  The part of the flecs world the leaf nodes and the turn loop read and write.
  Each component the sources use is a partial map from entity ids to values
  (\<open>MovePos\<close> is \<open>move_to\<close>, \<open>NumActions\<close> is \<open>num_acts\<close>), a tag
  (\<open>IsPlayer\<close>, \<open>CanPickup\<close>) a predicate; \<open>ents\<close> lists the
  live entities in the order a query visits them (flecs decides that order, so
  every lemma holds for any order). Positions are integer grid cells, hitpoints
  and distances are reals (C++ \<open>float\<close>, rounding not modelled).

  The helpers \<open>dist\<close> (here \<open>dist_pos\<close>: HOL has a \<open>dist\<close>),
  \<open>move_towards\<close> and \<open>inverse_move\<close> and the action codes live in headers that are not among the sources (\<open>aiUtils.h\<close>,
  \<open>ecsTypes.h\<close>); they are written here from the spec's external interface
  (section 6) as the course headers define them. \<open>move_pos\<close> is
  \<open>src/w2/roguelike.cpp\<close>.
\<close>

section \<open>Actions and grid geometry\<close>

type_synonym position = "int \<times> int"

datatype action =
    EA_NOP | EA_MOVE_LEFT | EA_MOVE_RIGHT | EA_MOVE_DOWN | EA_MOVE_UP
  | EA_MOVE_SKIP | EA_HEAL_SELF

text \<open>The random-walk range \<open>[EA_MOVE_START, EA_MOVE_END - 1]\<close>.\<close>

definition move_actions :: "action list" where
  "move_actions = [EA_MOVE_LEFT, EA_MOVE_RIGHT, EA_MOVE_DOWN, EA_MOVE_UP]"

definition dist_pos :: "position \<Rightarrow> position \<Rightarrow> real" where
  "dist_pos a b = sqrt (real_of_int ((fst a - fst b)\<^sup>2 + (snd a - snd b)\<^sup>2))"

definition move_towards :: "position \<Rightarrow> position \<Rightarrow> action" where
  "move_towards from to =
     (let deltaX = fst to - fst from; deltaY = snd to - snd from in
      if \<bar>deltaX\<bar> > \<bar>deltaY\<bar> then (if deltaX > 0 then EA_MOVE_RIGHT else EA_MOVE_LEFT)
      else if deltaY < 0 then EA_MOVE_UP else EA_MOVE_DOWN)"

fun inverse_move :: "action \<Rightarrow> action" where
  "inverse_move EA_MOVE_LEFT = EA_MOVE_RIGHT"
| "inverse_move EA_MOVE_RIGHT = EA_MOVE_LEFT"
| "inverse_move EA_MOVE_UP = EA_MOVE_DOWN"
| "inverse_move EA_MOVE_DOWN = EA_MOVE_UP"
| "inverse_move a = a"

text \<open>\<open>move_pos\<close> of src/w2/roguelike.cpp: the cell an action leads to.\<close>

fun move_pos :: "position \<Rightarrow> action \<Rightarrow> position" where
  "move_pos (x, y) EA_MOVE_LEFT = (x - 1, y)"
| "move_pos (x, y) EA_MOVE_RIGHT = (x + 1, y)"
| "move_pos (x, y) EA_MOVE_UP = (x, y - 1)"
| "move_pos (x, y) EA_MOVE_DOWN = (x, y + 1)"
| "move_pos p a = p"

section \<open>The world\<close>

text \<open>\<open>FLT_MAX\<close>, the initial \<open>closestDist\<close> of the search nodes.\<close>

definition FLT_MAX :: real where
  "FLT_MAX = (2 ^ 24 - 1) * 2 ^ 104"

datatype query_kind = QPowerup | QHeal

text \<open>\<open>struct NumActions { int numActions; int curActions; }\<close>: the player acts
  \<open>numActions\<close> times per turn of the NPCs.\<close>

record num_actions =
  numActions :: int
  curActions :: int

text \<open>\<open>struct PlayerInput { bool left, right, up, down, skip; }\<close>: the keys held at
  the previous frame (and, as the argument of the input system, at this one).\<close>

record player_input =
  left :: bool
  right :: bool
  up :: bool
  down :: bool
  skip :: bool

record world =
  ents :: "eid list"
  pos :: "eid \<Rightarrow> position option"
  hitpoints :: "eid \<Rightarrow> real option"
  act :: "eid \<Rightarrow> action option"
  team :: "eid \<Rightarrow> int option"
  cur_wp :: "eid \<Rightarrow> eid option"
  next_wp :: "eid \<Rightarrow> eid option"
  powerup_amount :: "eid \<Rightarrow> real option"
  heal_amount :: "eid \<Rightarrow> real option"
  move_to :: "eid \<Rightarrow> position option"
  melee_damage :: "eid \<Rightarrow> real option"
  is_player :: "eid \<Rightarrow> bool"
  can_pickup :: "eid \<Rightarrow> bool"
  num_acts :: "eid \<Rightarrow> num_actions option"
  player_inp :: "eid \<Rightarrow> player_input option"

text \<open>\<open>e.is_alive()\<close> and \<open>ecs.is_valid(e)\<close>: the null handle 0 is never valid.\<close>

definition is_alive :: "world \<Rightarrow> eid \<Rightarrow> bool" where
  "is_alive w e \<longleftrightarrow> e \<in> set (ents w)"

definition is_valid :: "world \<Rightarrow> eid \<Rightarrow> bool" where
  "is_valid w e \<longleftrightarrow> e \<noteq> 0 \<and> e \<in> set (ents w)"

text \<open>
  The body of the \<open>each\<close> loops of \<open>FindEnemy\<close> and \<open>FindClosestOf\<close>:
  among the visited entities that have a position and pass the query's filter,
  keep the first one strictly closer than the best so far.
\<close>

fun closest_loop ::
  "(eid \<Rightarrow> bool) \<Rightarrow> world \<Rightarrow> position \<Rightarrow> eid list \<Rightarrow> eid \<times> real \<Rightarrow> eid \<times> real" where
  "closest_loop ok w p [] acc = acc"
| "closest_loop ok w p (e # es) (closest, closestDist) =
     (case pos w e of
        None \<Rightarrow> closest_loop ok w p es (closest, closestDist)
      | Some epos \<Rightarrow>
          if \<not> ok e then closest_loop ok w p es (closest, closestDist)
          else let curDist = dist_pos epos p in
            if curDist < closestDist then closest_loop ok w p es (e, curDist)
            else closest_loop ok w p es (closest, closestDist))"

text \<open>\<open>enemiesQuery\<close> (\<open>Position, Team\<close>) with \<open>if (t.team == et.team) return;\<close>.\<close>

definition enemy_filter :: "world \<Rightarrow> int \<Rightarrow> eid \<Rightarrow> bool" where
  "enemy_filter w t e = (case team w e of None \<Rightarrow> False | Some et \<Rightarrow> t \<noteq> et)"

text \<open>\<open>query<Position, PowerupAmount>\<close> and \<open>query<Position, HealAmount>\<close>.\<close>

fun kind_filter :: "query_kind \<Rightarrow> world \<Rightarrow> eid \<Rightarrow> bool" where
  "kind_filter QPowerup w e = (powerup_amount w e \<noteq> None)"
| "kind_filter QHeal w e = (heal_amount w e \<noteq> None)"

text \<open>The number of unit moves between two cells.\<close>

definition grid_dist :: "position \<Rightarrow> position \<Rightarrow> int" where
  "grid_dist a b = \<bar>fst a - fst b\<bar> + \<bar>snd a - snd b\<bar>"

text \<open>A small world for the witnesses: an NPC 1 of team 1 at (0, 0) and the
  player 2 of team 0 at (3, 0), who acts twice per turn.\<close>

definition demo_world :: world where
  "demo_world =
     \<lparr>ents = [1, 2], pos = [1 \<mapsto> (0, 0), 2 \<mapsto> (3, 0)], hitpoints = [1 \<mapsto> 100, 2 \<mapsto> 100],
      act = [1 \<mapsto> EA_NOP, 2 \<mapsto> EA_NOP], team = [1 \<mapsto> 1, 2 \<mapsto> 0],
      cur_wp = Map.empty, next_wp = Map.empty, powerup_amount = Map.empty, heal_amount = Map.empty,
      move_to = [1 \<mapsto> (0, 0), 2 \<mapsto> (3, 0)], melee_damage = [1 \<mapsto> 20, 2 \<mapsto> 50],
      is_player = (\<lambda>x. x = 2), can_pickup = (\<lambda>x. x = 2),
      num_acts = [2 \<mapsto> \<lparr>numActions = 2, curActions = 0\<rparr>],
      player_inp = [2 \<mapsto> \<lparr>left = False, right = False, up = False, down = False, skip = False\<rparr>]\<rparr>"

section \<open>Moving and searching\<close>

text \<open>\<open>move_towards\<close> takes one step along a shortest grid path and its inverse
  one step away.\<close>

lemma move_towards_closer:
  "p \<noteq> q \<Longrightarrow> grid_dist (move_pos p (move_towards p q)) q = grid_dist p q - 1"
  by (cases p; cases q) (auto simp: move_towards_def grid_dist_def Let_def abs_if split: if_splits)

lemma flee_farther:
  "p \<noteq> q \<Longrightarrow> grid_dist (move_pos p (inverse_move (move_towards p q))) q = grid_dist p q + 1"
  by (cases p; cases q) (auto simp: move_towards_def grid_dist_def Let_def abs_if split: if_splits)

lemma closest_loop_min:
  "closest_loop ok w p es (c0, d0) = (c, d) \<Longrightarrow>
   d \<le> d0 \<and> (\<forall>e \<in> set es. \<forall>q. pos w e = Some q \<longrightarrow> ok e \<longrightarrow> d \<le> dist_pos q p)"
proof (induction ok w p es "(c0, d0)" arbitrary: c0 d0 rule: closest_loop.induct)
  case (1 ok w p c0 d0)
  then show ?case by simp
next
  case (2 ok w p e es c0 d0)
  then show ?case by (fastforce split: option.splits if_splits simp: Let_def)
qed

lemma closest_loop_member:
  "closest_loop ok w p es (c0, d0) = (c, d) \<Longrightarrow>
   (c = c0 \<and> d = d0) \<or> (c \<in> set es \<and> ok c \<and> (\<exists>q. pos w c = Some q \<and> d = dist_pos q p))"
proof (induction ok w p es "(c0, d0)" arbitrary: c0 d0 rule: closest_loop.induct)
  case (1 ok w p c0 d0)
  then show ?case by simp
next
  case (2 ok w p e es c0 d0)
  then show ?case by (fastforce split: option.splits if_splits simp: Let_def)
qed

end
