(* ===== verification/Actions.thy ===== *)
theory Actions
  imports World "HOL-Library.Signed_Division"
begin

text \<open>
  The world-side half of the turn loop of src/w2/roguelike.cpp:
  \<open>is_player_acted\<close>, the player's action counter
  \<open>upd_player_actions_count\<close>, and \<open>process_actions\<close> with its three deferred
  blocks (resolve moves and attacks, delete the dead, hand out pickups). Each
  flecs query is a pass over \<open>ents\<close> restricted to the entities with the
  query's components; writes through component references inside \<open>each\<close> are
  immediate, \<open>destruct\<close> inside \<open>ecs.defer\<close> takes effect when the block ends.
  C++ \<open>%\<close> on \<open>int\<close> is \<open>smod\<close> (truncating); a zero \<open>numActions\<close> is
  undefined behaviour in C++ and the value \<open>None\<close> here. The invariants of the
  world the turn keeps are defined at the end of the definitions.
\<close>

section \<open>The player's counter\<close>

text \<open>\<open>is_player_acted\<close>: the last player visited decides.\<close>

definition is_player_acted :: "world \<Rightarrow> bool" where
  "is_player_acted w =
     foldl (\<lambda>playerActed e.
              if is_player w e then (case act w e of Some a \<Rightarrow> a \<noteq> EA_NOP | None \<Rightarrow> playerActed)
              else playerActed)
       False (ents w)"

text \<open>The loop of \<open>upd_player_actions_count\<close>.\<close>

fun upd_loop :: "bool \<Rightarrow> eid list \<Rightarrow> world \<Rightarrow> (bool \<times> world) option" where
  "upd_loop actionsReached [] w = Some (actionsReached, w)"
| "upd_loop actionsReached (e # es) w =
     (if is_player w e then
        (case num_acts w e of
           None \<Rightarrow> upd_loop actionsReached es w
         | Some na \<Rightarrow>
             if numActions na = 0 then None
             else let cur = (curActions na + 1) smod numActions na in
               upd_loop (actionsReached \<or> cur = 0) es
                 (w\<lparr>num_acts := (num_acts w)(e \<mapsto> na\<lparr>curActions := cur\<rparr>)\<rparr>))
      else upd_loop actionsReached es w)"

definition upd_player_actions_count :: "world \<Rightarrow> (bool \<times> world) option" where
  "upd_player_actions_count w = upd_loop False (ents w) w"

section \<open>Resolving actions\<close>

text \<open>The query \<open>processActions\<close>: \<open>Action, Position, MovePos, MeleeDamage, Team\<close>.\<close>

definition mover :: "world \<Rightarrow> eid \<Rightarrow> bool" where
  "mover w e \<longleftrightarrow> act w e \<noteq> None \<and> pos w e \<noteq> None \<and> move_to w e \<noteq> None \<and>
     melee_damage w e \<noteq> None \<and> team w e \<noteq> None"

text \<open>The inner loop over \<open>checkAttacks\<close> (\<open>MovePos, Hitpoints, Team\<close>): an
  entity whose planned cell is the mover's next cell blocks it, and takes the
  mover's damage when it is of another team.\<close>

fun attack_loop :: "eid \<Rightarrow> position \<Rightarrow> real \<Rightarrow> int \<Rightarrow> eid list \<Rightarrow> bool \<times> world \<Rightarrow> bool \<times> world" where
  "attack_loop entity nextPos dmg tm [] acc = acc"
| "attack_loop entity nextPos dmg tm (enemy # es) (blocked, w) =
     (case (move_to w enemy, hitpoints w enemy, team w enemy) of
        (Some epos, Some hp, Some enemy_team) \<Rightarrow>
          if entity \<noteq> enemy \<and> epos = nextPos
          then attack_loop entity nextPos dmg tm es
                 (True, if tm \<noteq> enemy_team then w\<lparr>hitpoints := (hitpoints w)(enemy \<mapsto> hp - dmg)\<rparr> else w)
          else attack_loop entity nextPos dmg tm es (blocked, w)
      | _ \<Rightarrow> attack_loop entity nextPos dmg tm es (blocked, w))"

text \<open>The first pass: plan every mover's next cell.\<close>

fun plan_moves :: "eid list \<Rightarrow> eid list \<Rightarrow> world \<Rightarrow> world" where
  "plan_moves checks [] w = w"
| "plan_moves checks (e # es) w =
     (case (act w e, pos w e, move_to w e, melee_damage w e, team w e) of
        (Some a, Some p, Some _, Some dmg, Some tm) \<Rightarrow>
          (let nextPos = move_pos p a in
           case attack_loop e nextPos dmg tm checks (False, w) of
             (blocked, w') \<Rightarrow>
               plan_moves checks es
                 (if blocked then w'\<lparr>act := (act w')(e \<mapsto> EA_NOP)\<rparr>
                  else w'\<lparr>move_to := (move_to w')(e \<mapsto> nextPos)\<rparr>))
      | _ \<Rightarrow> plan_moves checks es w)"

text \<open>The second pass: move and clear the action.\<close>

fun apply_moves :: "eid list \<Rightarrow> world \<Rightarrow> world" where
  "apply_moves [] w = w"
| "apply_moves (e # es) w =
     (if mover w e then apply_moves es (w\<lparr>pos := (pos w)(e := move_to w e), act := (act w)(e \<mapsto> EA_NOP)\<rparr>)
      else apply_moves es w)"

text \<open>\<open>deleteAllDead\<close>: the entities with \<open>hp <= 0\<close> are destructed when the
  deferred block ends.\<close>

definition delete_dead :: "world \<Rightarrow> world" where
  "delete_dead w =
     w\<lparr>ents := filter (\<lambda>e. case hitpoints w e of Some hp \<Rightarrow> \<not> hp \<le> 0 | None \<Rightarrow> True) (ents w)\<rparr>"

text \<open>One pickup loop (\<open>healPickup\<close> or \<open>powerupPickup\<close>) for a pickupper at
  \<open>p\<close>: add every amount lying on \<open>p\<close> and mark its entity for destruction.\<close>

fun pickup_loop ::
  "world \<Rightarrow> (world \<Rightarrow> eid \<Rightarrow> real option) \<Rightarrow> position \<Rightarrow> eid list \<Rightarrow> real \<times> eid list \<Rightarrow> real \<times> eid list" where
  "pickup_loop w amount p [] acc = acc"
| "pickup_loop w amount p (x # xs) (v, dead) =
     (case (pos w x, amount w x) of
        (Some ppos, Some amt) \<Rightarrow>
          if p = ppos then pickup_loop w amount p xs (v + amt, dead @ [x])
          else pickup_loop w amount p xs (v, dead)
      | _ \<Rightarrow> pickup_loop w amount p xs (v, dead))"

text \<open>The loop over \<open>pickuppers\<close> (\<open>CanPickup, Position, Hitpoints, MeleeDamage\<close>).\<close>

fun pickuppers_loop :: "eid list \<Rightarrow> world \<times> eid list \<Rightarrow> world \<times> eid list" where
  "pickuppers_loop [] acc = acc"
| "pickuppers_loop (e # es) (w, dead) =
     (case (pos w e, hitpoints w e, melee_damage w e) of
        (Some p, Some hp, Some dmg) \<Rightarrow>
          if can_pickup w e then
            (case pickup_loop w heal_amount p (ents w) (hp, dead) of
               (hp', dead1) \<Rightarrow>
                 (case pickup_loop w powerup_amount p (ents w) (dmg, dead1) of
                    (dmg', dead2) \<Rightarrow>
                      pickuppers_loop es
                        (w\<lparr>hitpoints := (hitpoints w)(e \<mapsto> hp'),
                           melee_damage := (melee_damage w)(e \<mapsto> dmg')\<rparr>, dead2)))
          else pickuppers_loop es (w, dead)
      | _ \<Rightarrow> pickuppers_loop es (w, dead))"

definition pickup :: "world \<Rightarrow> world" where
  "pickup w =
     (case pickuppers_loop (ents w) (w, []) of
        (w', dead) \<Rightarrow> w'\<lparr>ents := filter (\<lambda>e. e \<notin> set dead) (ents w')\<rparr>)"

definition process_actions :: "world \<Rightarrow> world" where
  "process_actions w = pickup (delete_dead (apply_moves (ents w) (plan_moves (ents w) (ents w) w)))"

section \<open>Invariants of the world\<close>

text \<open>No two live entities plan to stand on the same cell; every entity with a
  \<open>MovePos\<close> is seen by \<open>checkAttacks\<close>; every player's counter is in range.\<close>

definition cells_distinct :: "world \<Rightarrow> bool" where
  "cells_distinct w \<longleftrightarrow>
     (\<forall>x \<in> set (ents w). \<forall>y \<in> set (ents w). x \<noteq> y \<longrightarrow> move_to w x \<noteq> None \<longrightarrow> move_to w x \<noteq> move_to w y)"

definition movers_wf :: "world \<Rightarrow> bool" where
  "movers_wf w \<longleftrightarrow> (\<forall>e \<in> set (ents w). move_to w e \<noteq> None \<longrightarrow> hitpoints w e \<noteq> None \<and> team w e \<noteq> None)"

text \<open>An entity \<open>y\<close> of \<open>checkAttacks\<close> that stops entity \<open>x\<close> from moving to
  \<open>np\<close>.\<close>

definition blocks :: "world \<Rightarrow> eid \<Rightarrow> position \<Rightarrow> eid \<Rightarrow> bool" where
  "blocks w x np y \<longleftrightarrow> y \<noteq> x \<and> move_to w y = Some np \<and> hitpoints w y \<noteq> None \<and> team w y \<noteq> None"

text \<open>Every live entity with a \<open>MovePos\<close> stands on it between turns: the
  second pass of \<open>process_actions\<close> copies \<open>MovePos\<close> into \<open>Position\<close>, and
  \<open>create_npc\<close> and \<open>create_player\<close> set both to the same cell.\<close>

definition pos_sync :: "world \<Rightarrow> bool" where
  "pos_sync w \<longleftrightarrow> (\<forall>e \<in> set (ents w). move_to w e \<noteq> None \<longrightarrow> pos w e = move_to w e)"

definition counter_ok :: "num_actions option \<Rightarrow> bool" where
  "counter_ok c \<longleftrightarrow> (case c of None \<Rightarrow> True | Some na \<Rightarrow> 0 \<le> curActions na \<and> curActions na < numActions na)"

definition counters_ok :: "world \<Rightarrow> bool" where
  "counters_ok w \<longleftrightarrow> (\<forall>e \<in> set (ents w). is_player w e \<longrightarrow> counter_ok (num_acts w e))"

text \<open>The part of the world \<open>process_actions\<close> never writes: everything but the
  entity list, positions, hitpoints, actions, planned cells and damage.\<close>

definition statics :: "world \<Rightarrow> world" where
  "statics w = w\<lparr>ents := [], pos := Map.empty, hitpoints := Map.empty, act := Map.empty,
     move_to := Map.empty, melee_damage := Map.empty\<rparr>"

text \<open>The invariants of the world a turn keeps.\<close>

definition world_inv :: "world \<Rightarrow> bool" where
  "world_inv w \<longleftrightarrow> cells_distinct w \<and> movers_wf w \<and> pos_sync w \<and> counters_ok w"

text \<open>The shape of the game's world: one player \<open>p\<close> with a counter
  \<open>\<lparr>numActions = n, curActions = c\<rparr>\<close> in range, no other counter on a player.\<close>

definition one_counter :: "world \<Rightarrow> eid \<Rightarrow> int \<Rightarrow> int \<Rightarrow> bool" where
  "one_counter w p n c \<longleftrightarrow> distinct (ents w) \<and> p \<in> set (ents w) \<and> is_player w p \<and>
     num_acts w p = Some \<lparr>numActions = n, curActions = c\<rparr> \<and> 0 \<le> c \<and> c < n \<and>
     (\<forall>e \<in> set (ents w). e \<noteq> p \<longrightarrow> is_player w e \<longrightarrow> num_acts w e = None)"

text \<open>The flags \<open>upd_player_actions_count\<close> returns on \<open>k\<close> successive acted
  turns: the turns on which the NPCs plan.\<close>

fun counter_flags :: "nat \<Rightarrow> world \<Rightarrow> bool list option" where
  "counter_flags 0 w = Some []"
| "counter_flags (Suc k) w =
     (case upd_player_actions_count w of
        None \<Rightarrow> None
      | Some (r, w') \<Rightarrow> map_option (Cons r) (counter_flags k w'))"

section \<open>Resolving actions keeps the cells distinct\<close>

lemma cells_distinct_mono:
  "cells_distinct w \<Longrightarrow> set (ents w') \<subseteq> set (ents w) \<Longrightarrow> move_to w' = move_to w \<Longrightarrow> cells_distinct w'"
  unfolding cells_distinct_def by (metis subsetD)

lemma movers_wf_mono:
  "movers_wf w \<Longrightarrow> set (ents w') \<subseteq> set (ents w) \<Longrightarrow> move_to w' = move_to w \<Longrightarrow> team w' = team w \<Longrightarrow>
   (\<forall>e. hitpoints w e \<noteq> None \<longrightarrow> hitpoints w' e \<noteq> None) \<Longrightarrow> movers_wf w'"
  unfolding movers_wf_def by (metis subsetD)

lemma cells_distinct_move:
  assumes "cells_distinct w" "\<forall>y \<in> set (ents w). y \<noteq> e \<longrightarrow> move_to w y \<noteq> Some np"
  shows "cells_distinct (w\<lparr>move_to := (move_to w)(e \<mapsto> np)\<rparr>)"
  unfolding cells_distinct_def
proof (intro ballI impI)
  fix x y assume x: "x \<in> set (ents (w\<lparr>move_to := (move_to w)(e \<mapsto> np)\<rparr>))"
    and y: "y \<in> set (ents (w\<lparr>move_to := (move_to w)(e \<mapsto> np)\<rparr>))" and xy: "x \<noteq> y"
    and "move_to (w\<lparr>move_to := (move_to w)(e \<mapsto> np)\<rparr>) x \<noteq> None"
  then have s: "move_to w x \<noteq> None \<or> x = e" by auto
  show "move_to (w\<lparr>move_to := (move_to w)(e \<mapsto> np)\<rparr>) x \<noteq> move_to (w\<lparr>move_to := (move_to w)(e \<mapsto> np)\<rparr>) y"
  proof (cases "x = e")
    case True
    then show ?thesis using assms(2) y xy by fastforce
  next
    case False
    show ?thesis
    proof (cases "y = e")
      case True
      then show ?thesis using assms(2) x False by fastforce
    next
      case False
      then show ?thesis using assms(1) x y xy s \<open>x \<noteq> e\<close> unfolding cells_distinct_def by simp
    qed
  qed
qed

lemma movers_wf_move:
  "movers_wf w \<Longrightarrow> (e \<in> set (ents w) \<Longrightarrow> hitpoints w e \<noteq> None \<and> team w e \<noteq> None) \<Longrightarrow>
   movers_wf (w\<lparr>move_to := (move_to w)(e \<mapsto> np)\<rparr>)"
  unfolding movers_wf_def by simp

lemma hp_erase_fields:
  "w'\<lparr>hitpoints := m\<rparr> = w\<lparr>hitpoints := m\<rparr> \<Longrightarrow>
   ents w' = ents w \<and> move_to w' = move_to w \<and> team w' = team w \<and> pos w' = pos w \<and>
   act w' = act w \<and> melee_damage w' = melee_damage w"
  by (cases w, cases w') simp

lemma attack_loop_blocked:
  "fst (attack_loop x np dmg tm ys (b, w)) \<longleftrightarrow> b \<or> (\<exists>y \<in> set ys. blocks w x np y)"
proof (induction ys arbitrary: b w)
  case Nil
  then show ?case by simp
next
  case (Cons y ys)
  show ?case
  proof (cases "blocks w x np y")
    case True
    then obtain hp et where h: "move_to w y = Some np" "hitpoints w y = Some hp" "team w y = Some et"
      "x \<noteq> y" by (auto simp: blocks_def)
    have "attack_loop x np dmg tm (y # ys) (b, w) =
        attack_loop x np dmg tm ys
          (True, if tm \<noteq> et then w\<lparr>hitpoints := (hitpoints w)(y \<mapsto> hp - dmg)\<rparr> else w)"
      using h by simp
    then show ?thesis using Cons.IH True by simp
  next
    case False
    then have "attack_loop x np dmg tm (y # ys) (b, w) = attack_loop x np dmg tm ys (b, w)"
      by (auto simp: blocks_def split: option.split)
    then show ?thesis using Cons.IH False by simp
  qed
qed

lemma attack_loop_frame:
  "(snd (attack_loop x np dmg tm ys (b, w)))\<lparr>hitpoints := Map.empty\<rparr> = w\<lparr>hitpoints := Map.empty\<rparr> \<and>
   (\<forall>y. hitpoints w y \<noteq> None \<longrightarrow> hitpoints (snd (attack_loop x np dmg tm ys (b, w))) y \<noteq> None)"
proof (induction ys arbitrary: b w)
  case Nil
  then show ?case by simp
next
  case (Cons y ys)
  show ?case
  proof (cases "blocks w x np y")
    case True
    then obtain hp et where h: "move_to w y = Some np" "hitpoints w y = Some hp" "team w y = Some et"
      "x \<noteq> y" by (auto simp: blocks_def)
    define w1 where "w1 = (if tm \<noteq> et then w\<lparr>hitpoints := (hitpoints w)(y \<mapsto> hp - dmg)\<rparr> else w)"
    have eq: "attack_loop x np dmg tm (y # ys) (b, w) = attack_loop x np dmg tm ys (True, w1)"
      using h by (simp add: w1_def)
    have "w1\<lparr>hitpoints := Map.empty\<rparr> = w\<lparr>hitpoints := Map.empty\<rparr>"
      "\<forall>z. hitpoints w z \<noteq> None \<longrightarrow> hitpoints w1 z \<noteq> None"
      by (simp_all add: w1_def)
    then show ?thesis using Cons.IH [of True w1] unfolding eq by simp
  next
    case False
    then have "attack_loop x np dmg tm (y # ys) (b, w) = attack_loop x np dmg tm ys (b, w)"
      by (auto simp: blocks_def split: option.split)
    then show ?thesis using Cons.IH [of b w] by simp
  qed
qed

lemma plan_moves_inv:
  "ents w = checks \<Longrightarrow> cells_distinct w \<Longrightarrow> movers_wf w \<Longrightarrow>
   ents (plan_moves checks es w) = checks \<and> cells_distinct (plan_moves checks es w) \<and>
   movers_wf (plan_moves checks es w)"
proof (induction es arbitrary: w)
  case Nil
  then show ?case by simp
next
  case (Cons e es)
  show ?case
  proof (cases "mover w e")
    case False
    then have "plan_moves checks (e # es) w = plan_moves checks es w"
      by (auto simp: mover_def split: option.split)
    then show ?thesis using Cons by simp
  next
    case True
    then obtain a p m dmg tm where c: "act w e = Some a" "pos w e = Some p" "move_to w e = Some m"
      "melee_damage w e = Some dmg" "team w e = Some tm"
      by (auto simp: mover_def)
    obtain blocked w1 where al: "attack_loop e (move_pos p a) dmg tm checks (False, w) = (blocked, w1)"
      by fastforce
    have fr: "w1\<lparr>hitpoints := Map.empty\<rparr> = w\<lparr>hitpoints := Map.empty\<rparr>"
      "\<forall>y. hitpoints w y \<noteq> None \<longrightarrow> hitpoints w1 y \<noteq> None"
      using attack_loop_frame [of e "move_pos p a" dmg tm checks False w] al by simp_all
    note f = hp_erase_fields [OF fr(1)] fr(2)
    have bl: "blocked \<longleftrightarrow> (\<exists>y \<in> set checks. blocks w e (move_pos p a) y)"
      using attack_loop_blocked [of e "move_pos p a" dmg tm checks False w] al by simp
    define w2 where "w2 = (if blocked then w1\<lparr>act := (act w1)(e \<mapsto> EA_NOP)\<rparr>
                           else w1\<lparr>move_to := (move_to w1)(e \<mapsto> move_pos p a)\<rparr>)"
    have eq: "plan_moves checks (e # es) w = plan_moves checks es w2"
      using c al by (simp add: w2_def Let_def)
    have free: "\<not> blocked \<Longrightarrow> \<forall>y \<in> set (ents w). y \<noteq> e \<longrightarrow> move_to w y \<noteq> Some (move_pos p a)"
      using bl Cons.prems(1,3) by (auto simp: movers_wf_def blocks_def)
    have e_hp: "e \<in> set (ents w) \<Longrightarrow> hitpoints w e \<noteq> None \<and> team w e \<noteq> None"
      using Cons.prems(3) c by (auto simp: movers_wf_def)
    have c1: "cells_distinct w1" using cells_distinct_mono [OF Cons.prems(2)] f by simp
    have m1: "movers_wf w1" using movers_wf_mono [OF Cons.prems(3)] f by simp
    have "ents w2 = checks" using f Cons.prems(1) by (simp add: w2_def)
    moreover have "cells_distinct w2"
    proof (cases blocked)
      case True
      then show ?thesis using c1 by (simp add: w2_def cells_distinct_def)
    next
      case False
      then show ?thesis using cells_distinct_move [OF c1] free f by (simp add: w2_def)
    qed
    moreover have "movers_wf w2"
    proof (cases blocked)
      case True
      then show ?thesis using m1 by (simp add: w2_def movers_wf_def)
    next
      case False
      then show ?thesis using movers_wf_move [OF m1] e_hp f by (simp add: w2_def)
    qed
    ultimately show ?thesis using Cons.IH [of w2] eq Cons.prems(1) by simp
  qed
qed


lemma apply_moves_fields:
  "ents (apply_moves es w) = ents w \<and> move_to (apply_moves es w) = move_to w \<and>
   team (apply_moves es w) = team w \<and> hitpoints (apply_moves es w) = hitpoints w \<and>
   melee_damage (apply_moves es w) = melee_damage w"
  by (induction es arbitrary: w) simp_all

lemma pickup_fields:
  "pickuppers_loop es (w, d) = (w', d') \<Longrightarrow>
   ents w' = ents w \<and> move_to w' = move_to w \<and> team w' = team w \<and> pos w' = pos w \<and> act w' = act w \<and>
   (\<forall>y. hitpoints w y \<noteq> None \<longrightarrow> hitpoints w' y \<noteq> None) \<and>
   (\<forall>y. melee_damage w y \<noteq> None \<longrightarrow> melee_damage w' y \<noteq> None)"
proof (induction es arbitrary: w d)
  case Nil
  then show ?case by simp
next
  case (Cons e es)
  show ?case
  proof (cases "can_pickup w e \<and> pos w e \<noteq> None \<and> hitpoints w e \<noteq> None \<and> melee_damage w e \<noteq> None")
    case True
    then obtain p hp dmg where h: "pos w e = Some p" "hitpoints w e = Some hp" "melee_damage w e = Some dmg"
      "can_pickup w e" by auto
    obtain hp' d1 where a: "pickup_loop w heal_amount p (ents w) (hp, d) = (hp', d1)" by fastforce
    obtain dmg' d2 where b: "pickup_loop w powerup_amount p (ents w) (dmg, d1) = (dmg', d2)" by fastforce
    define w1 where "w1 = w\<lparr>hitpoints := (hitpoints w)(e \<mapsto> hp'), melee_damage := (melee_damage w)(e \<mapsto> dmg')\<rparr>"
    have "pickuppers_loop es (w1, d2) = (w', d')" using Cons.prems h a b by (simp add: w1_def)
    then show ?thesis using Cons.IH [of w1 d2] by (simp add: w1_def)
  next
    case False
    then have "pickuppers_loop es (w, d) = (w', d')" using Cons.prems by (auto split: option.splits)
    then show ?thesis using Cons.IH by simp
  qed
qed

lemma pickup_cells:
  assumes "cells_distinct w" "movers_wf w"
  shows "cells_distinct (pickup w) \<and> movers_wf (pickup w)"
proof -
  obtain w' d where pl: "pickuppers_loop (ents w) (w, []) = (w', d)" by fastforce
  note f = pickup_fields [OF pl]
  have e: "pickup w = w'\<lparr>ents := filter (\<lambda>e. e \<notin> set d) (ents w')\<rparr>"
    using pl by (simp add: pickup_def)
  have sub: "set (ents (pickup w)) \<subseteq> set (ents w)" using e f by auto
  show ?thesis
    using cells_distinct_mono [OF assms(1) sub] movers_wf_mono [OF assms(2) sub] e f by simp
qed

lemma delete_dead_cells:
  assumes "cells_distinct w" "movers_wf w"
  shows "cells_distinct (delete_dead w) \<and> movers_wf (delete_dead w)"
proof -
  have sub: "set (ents (delete_dead w)) \<subseteq> set (ents w)" by (auto simp: delete_dead_def)
  show ?thesis
    using cells_distinct_mono [OF assms(1) sub] movers_wf_mono [OF assms(2) sub]
    by (simp add: delete_dead_def)
qed

lemma apply_moves_cells:
  assumes "cells_distinct w" "movers_wf w"
  shows "cells_distinct (apply_moves es w) \<and> movers_wf (apply_moves es w)"
  using cells_distinct_mono [OF assms(1)] movers_wf_mono [OF assms(2)] apply_moves_fields [of es w]
  by simp

lemma process_actions_cells:
  assumes "cells_distinct w" "movers_wf w"
  shows "cells_distinct (process_actions w) \<and> movers_wf (process_actions w)"
proof -
  have "cells_distinct (plan_moves (ents w) (ents w) w) \<and> movers_wf (plan_moves (ents w) (ents w) w)"
    using plan_moves_inv [OF refl assms] by simp
  then show ?thesis
    unfolding process_actions_def using apply_moves_cells delete_dead_cells pickup_cells by blast
qed



section \<open>The counter\<close>

lemma upd_loop_frame:
  "upd_loop r es w = Some (r', w') \<Longrightarrow> w' = w\<lparr>num_acts := num_acts w'\<rparr>"
proof (induction r es w rule: upd_loop.induct)
  case (1 r w)
  then show ?case by simp
next
  case (2 r e es w)
  show ?case
  proof (cases "is_player w e")
    case False
    then show ?thesis using "2.prems" "2.IH"(3) by simp
  next
    case True
    show ?thesis
    proof (cases "num_acts w e")
      case None
      then show ?thesis using "2.prems" "2.IH"(1) True by simp
    next
      case (Some na)
      define w1 where "w1 = w\<lparr>num_acts := (num_acts w)(e \<mapsto> na\<lparr>curActions := (curActions na + 1) smod numActions na\<rparr>)\<rparr>"
      have nz: "numActions na \<noteq> 0" using "2.prems" True Some by (auto split: if_splits)
      have "upd_loop (r \<or> (curActions na + 1) smod numActions na = 0) es w1 = Some (r', w')"
        using "2.prems" True Some nz by (simp add: w1_def Let_def)
      then have "w' = w1\<lparr>num_acts := num_acts w'\<rparr>"
        using "2.IH"(2) [OF True Some nz refl] unfolding w1_def by simp
      then show ?thesis by (simp add: w1_def)
    qed
  qed
qed

lemma smod_succ:
  assumes "0 \<le> c" "c < (n::int)"
  shows "(c + 1) smod n = (if c + 1 = n then 0 else c + 1)"
proof -
  have "(c + 1) smod n = (c + 1) mod n" using assms by (simp add: smod_int_alt_def)
  then show ?thesis using assms by auto
qed

lemma counter_ok_succ:
  "counter_ok (Some na) \<Longrightarrow>
   counter_ok (Some (na\<lparr>curActions := (curActions na + 1) smod numActions na\<rparr>))"
  unfolding counter_ok_def by (simp add: smod_succ)

lemma upd_loop_counters:
  "set es \<subseteq> set (ents w) \<Longrightarrow> counters_ok w \<Longrightarrow>
   \<exists>r' w'. upd_loop r es w = Some (r', w') \<and> counters_ok w'"
proof (induction es arbitrary: r w)
  case Nil
  then show ?case by simp
next
  case (Cons e es)
  show ?case
  proof (cases "is_player w e \<and> num_acts w e \<noteq> None")
    case False
    then have "upd_loop r (e # es) w = upd_loop r es w" by auto
    then show ?thesis using Cons by simp
  next
    case True
    then obtain na where na: "is_player w e" "num_acts w e = Some na" by auto
    have ok: "counter_ok (Some na)" using Cons.prems na by (auto simp: counters_ok_def)
    then have nz: "numActions na \<noteq> 0" by (simp add: counter_ok_def)
    define na' where "na' = na\<lparr>curActions := (curActions na + 1) smod numActions na\<rparr>"
    define w1 where "w1 = w\<lparr>num_acts := (num_acts w)(e \<mapsto> na')\<rparr>"
    have eq: "upd_loop r (e # es) w = upd_loop (r \<or> curActions na' = 0) es w1"
      using na nz by (simp add: Let_def w1_def na'_def)
    have "counters_ok w1"
      using Cons.prems(2) counter_ok_succ [OF ok] by (simp add: counters_ok_def w1_def na'_def)
    moreover have "set es \<subseteq> set (ents w1)" using Cons.prems(1) by (simp add: w1_def)
    ultimately show ?thesis using Cons.IH eq by simp
  qed
qed

lemma upd_loop_none:
  "\<forall>e \<in> set es. is_player w e \<longrightarrow> num_acts w e = None \<Longrightarrow> upd_loop r es w = Some (r, w)"
  by (induction es arbitrary: r) auto

lemma upd_loop_one:
  assumes "distinct es" "\<forall>e \<in> set es. e \<noteq> p \<longrightarrow> is_player w e \<longrightarrow> num_acts w e = None"
    "is_player w p" "num_acts w p = Some \<lparr>numActions = n, curActions = c\<rparr>" "n \<noteq> 0"
  shows "upd_loop r es w =
    (if p \<in> set es
     then Some (r \<or> (c + 1) smod n = 0,
                w\<lparr>num_acts := (num_acts w)(p \<mapsto> \<lparr>numActions = n, curActions = (c + 1) smod n\<rparr>)\<rparr>)
     else Some (r, w))"
  using assms
proof (induction es arbitrary: r w)
  case Nil
  then show ?case by simp
next
  case (Cons e es)
  show ?case
  proof (cases "e = p")
    case True
    define w1 where "w1 = w\<lparr>num_acts := (num_acts w)(p \<mapsto> \<lparr>numActions = n, curActions = (c + 1) smod n\<rparr>)\<rparr>"
    have "\<forall>x \<in> set es. is_player w1 x \<longrightarrow> num_acts w1 x = None"
      using Cons.prems(1,2) True by (auto simp: w1_def)
    then have "upd_loop (r \<or> (c + 1) smod n = 0) es w1 = Some (r \<or> (c + 1) smod n = 0, w1)"
      by (rule upd_loop_none)
    then show ?thesis using Cons.prems True by (simp add: w1_def Let_def)
  next
    case False
    then have "upd_loop r (e # es) w = upd_loop r es w" using Cons.prems(2) by auto
    then show ?thesis using Cons.IH [of w r] Cons.prems False by simp
  qed
qed

lemma upd_one:
  assumes "one_counter w p n c"
  shows "upd_player_actions_count w =
           Some (c + 1 = n, w\<lparr>num_acts := (num_acts w)(p \<mapsto> \<lparr>numActions = n, curActions = (if c + 1 = n then 0 else c + 1)\<rparr>)\<rparr>) \<and>
         one_counter (w\<lparr>num_acts := (num_acts w)(p \<mapsto> \<lparr>numActions = n, curActions = (if c + 1 = n then 0 else c + 1)\<rparr>)\<rparr>) p n (if c + 1 = n then 0 else c + 1)"
proof -
  have a: "distinct (ents w)" "p \<in> set (ents w)" "is_player w p"
    "num_acts w p = Some \<lparr>numActions = n, curActions = c\<rparr>" "0 \<le> c" "c < n"
    "\<forall>e \<in> set (ents w). e \<noteq> p \<longrightarrow> is_player w e \<longrightarrow> num_acts w e = None"
    using assms by (simp_all add: one_counter_def)
  have s: "(c + 1) smod n = (if c + 1 = n then 0 else c + 1)" using smod_succ a(5,6) .
  show ?thesis
    using upd_loop_one [OF a(1,7,3,4), of False] a s by (auto simp: upd_player_actions_count_def one_counter_def)
qed

lemma plan_moves_skip:
  "\<not> mover w e \<Longrightarrow> plan_moves checks (e # es) w = plan_moves checks es w"
  by (auto simp: mover_def split: option.split)

lemma plan_moves_step:
  assumes "act w e = Some a" "pos w e = Some p" "move_to w e = Some m" "melee_damage w e = Some dmg"
    "team w e = Some tm" "attack_loop e (move_pos p a) dmg tm checks (False, w) = (blocked, w1)"
  shows "plan_moves checks (e # es) w =
           plan_moves checks es (if blocked then w1\<lparr>act := (act w1)(e \<mapsto> EA_NOP)\<rparr>
                                 else w1\<lparr>move_to := (move_to w1)(e \<mapsto> move_pos p a)\<rparr>)"
  using assms by (simp add: Let_def)

lemma attack_loop_fields:
  assumes "attack_loop x np dmg tm ys (b, w) = (b', w')"
  shows "ents w' = ents w \<and> move_to w' = move_to w \<and> team w' = team w \<and> pos w' = pos w \<and>
         act w' = act w \<and> melee_damage w' = melee_damage w \<and>
         (\<forall>y. hitpoints w y \<noteq> None \<longrightarrow> hitpoints w' y \<noteq> None)"
proof -
  have h: "w'\<lparr>hitpoints := Map.empty\<rparr> = w\<lparr>hitpoints := Map.empty\<rparr>"
    "\<forall>y. hitpoints w y \<noteq> None \<longrightarrow> hitpoints w' y \<noteq> None"
    using attack_loop_frame [of x np dmg tm ys b w] assms by simp_all
  show ?thesis using hp_erase_fields [OF h(1)] h(2) by simp
qed

lemma plan_moves_fields:
  "pos (plan_moves checks es w) = pos w \<and> melee_damage (plan_moves checks es w) = melee_damage w \<and>
   team (plan_moves checks es w) = team w \<and> ents (plan_moves checks es w) = ents w \<and>
   (mover w x \<longrightarrow> mover (plan_moves checks es w) x) \<and>
   (x \<notin> set es \<or> \<not> mover w x \<longrightarrow>
      act (plan_moves checks es w) x = act w x \<and> move_to (plan_moves checks es w) x = move_to w x)"
proof (induction es arbitrary: w)
  case Nil
  then show ?case by simp
next
  case (Cons e es)
  show ?case
  proof (cases "mover w e")
    case False
    then show ?thesis unfolding plan_moves_skip [OF False] using Cons.IH [of w] by simp
  next
    case True
    then obtain a p m dmg tm where c: "act w e = Some a" "pos w e = Some p" "move_to w e = Some m"
      "melee_damage w e = Some dmg" "team w e = Some tm"
      by (auto simp: mover_def)
    obtain blocked w1 where al: "attack_loop e (move_pos p a) dmg tm checks (False, w) = (blocked, w1)"
      by fastforce
    note f = attack_loop_fields [OF al]
    define w2 where "w2 = (if blocked then w1\<lparr>act := (act w1)(e \<mapsto> EA_NOP)\<rparr>
                           else w1\<lparr>move_to := (move_to w1)(e \<mapsto> move_pos p a)\<rparr>)"
    have eq: "plan_moves checks (e # es) w = plan_moves checks es w2"
      using plan_moves_step [OF c al] by (simp add: w2_def)
    have "pos w2 = pos w" "melee_damage w2 = melee_damage w" "team w2 = team w" "ents w2 = ents w"
      using f by (simp_all add: w2_def)
    moreover have "mover w x \<longrightarrow> mover w2 x" using f by (auto simp: w2_def mover_def)
    moreover have "x \<noteq> e \<longrightarrow> act w2 x = act w x \<and> move_to w2 x = move_to w x" using f by (simp add: w2_def)
    moreover have "x \<noteq> e \<longrightarrow> mover w2 x = mover w x" using f by (simp add: w2_def mover_def)
    ultimately show ?thesis using Cons.IH [of w2] eq True by auto
  qed
qed

text \<open>The cell a mover plans is the one its action leads to, or, when blocked, the cell it
  planned before.\<close>

lemma plan_moves_target:
  assumes "distinct es" "e \<in> set es" "act w e = Some a" "pos w e = Some p" "mover w e"
  shows "move_to (plan_moves checks es w) e \<in> {move_to w e, Some (move_pos p a)}"
  using assms
proof (induction es arbitrary: w)
  case Nil
  then show ?case by simp
next
  case (Cons x es)
  show ?case
  proof (cases "mover w x")
    case False
    then have "x \<noteq> e" using Cons.prems(5) by auto
    then show ?thesis unfolding plan_moves_skip [OF False] using Cons by simp
  next
    case True
    then obtain a' p' m dmg tm where c: "act w x = Some a'" "pos w x = Some p'" "move_to w x = Some m"
      "melee_damage w x = Some dmg" "team w x = Some tm"
      by (auto simp: mover_def)
    obtain blocked w1 where al: "attack_loop x (move_pos p' a') dmg tm checks (False, w) = (blocked, w1)"
      by fastforce
    note f = attack_loop_fields [OF al]
    define w2 where "w2 = (if blocked then w1\<lparr>act := (act w1)(x \<mapsto> EA_NOP)\<rparr>
                           else w1\<lparr>move_to := (move_to w1)(x \<mapsto> move_pos p' a')\<rparr>)"
    have eq: "plan_moves checks (x # es) w = plan_moves checks es w2"
      using plan_moves_step [OF c al] by (simp add: w2_def)
    show ?thesis
    proof (cases "x = e")
      case True
      then have "e \<notin> set es" using Cons.prems(1) by simp
      then have "move_to (plan_moves checks es w2) e = move_to w2 e" using plan_moves_fields by blast
      then show ?thesis using eq f c True Cons.prems(3,4) by (simp add: w2_def)
    next
      case False
      have "act w2 e = Some a" "pos w2 e = Some p" "mover w2 e" "move_to w2 e = move_to w e"
        using f False Cons.prems(3-5) by (auto simp: w2_def mover_def)
      then show ?thesis using Cons.IH [of w2] Cons.prems(1,2) False eq by simp
    qed
  qed
qed

lemma apply_moves_pos:
  "(mover w e \<longrightarrow> mover (apply_moves es w) e) \<and>
   (e \<in> set es \<longrightarrow> mover w e \<longrightarrow> pos (apply_moves es w) e = move_to w e \<and> act (apply_moves es w) e = Some EA_NOP) \<and>
   (e \<notin> set es \<or> \<not> mover w e \<longrightarrow> pos (apply_moves es w) e = pos w e \<and> act (apply_moves es w) e = act w e)"
proof (induction es arbitrary: w)
  case Nil
  then show ?case by simp
next
  case (Cons x es)
  show ?case
  proof (cases "mover w x")
    case False
    then show ?thesis using Cons.IH [of w] by auto
  next
    case True
    define w1 where "w1 = w\<lparr>pos := (pos w)(x := move_to w x), act := (act w)(x \<mapsto> EA_NOP)\<rparr>"
    have eq: "apply_moves (x # es) w = apply_moves es w1" using True by (simp add: w1_def)
    note IH = Cons.IH [of w1]
    show ?thesis
    proof (cases "e = x")
      case ex: True
      have m1: "mover w1 e" using True ex by (auto simp: w1_def mover_def)
      have "pos (apply_moves es w1) e = move_to w e \<and> act (apply_moves es w1) e = Some EA_NOP"
        using IH m1 ex by (cases "e \<in> set es") (auto simp: w1_def)
      then show ?thesis using IH m1 eq ex True by simp
    next
      case False
      then have "mover w1 e = mover w e" "move_to w1 = move_to w" "pos w1 e = pos w e" "act w1 e = act w e"
        by (auto simp: w1_def mover_def)
      then show ?thesis using IH eq False by simp
    qed
  qed
qed

lemma delete_dead_fields [simp]:
  "pos (delete_dead w) = pos w" "act (delete_dead w) = act w" "move_to (delete_dead w) = move_to w"
  "melee_damage (delete_dead w) = melee_damage w" "team (delete_dead w) = team w"
  "hitpoints (delete_dead w) = hitpoints w" "set (ents (delete_dead w)) \<subseteq> set (ents w)"
  by (auto simp: delete_dead_def)

lemma pickup_frame:
  "pos (pickup w) = pos w \<and> act (pickup w) = act w \<and> move_to (pickup w) = move_to w \<and>
   (mover w e \<longrightarrow> mover (pickup w) e)"
proof -
  obtain w' d where pl: "pickuppers_loop (ents w) (w, []) = (w', d)" by fastforce
  have "pickup w = w'\<lparr>ents := filter (\<lambda>e. e \<notin> set d) (ents w')\<rparr>"
    using pl by (simp add: pickup_def)
  then show ?thesis using pickup_fields [OF pl] by (auto simp: mover_def)
qed

text \<open>After \<open>process_actions\<close> a mover stands on the cell it planned.\<close>

lemma process_actions_pos:
  assumes "e \<in> set (ents w)" "mover w e"
  shows "pos (process_actions w) e = move_to (plan_moves (ents w) (ents w) w) e \<and>
         move_to (process_actions w) e = move_to (plan_moves (ents w) (ents w) w) e \<and>
         act (process_actions w) e = Some EA_NOP \<and> mover (process_actions w) e"
proof -
  define w1 where "w1 = plan_moves (ents w) (ents w) w"
  have m1: "mover w1 e" using plan_moves_fields assms(2) unfolding w1_def by blast
  have a: "pos (apply_moves (ents w) w1) e = move_to w1 e" "act (apply_moves (ents w) w1) e = Some EA_NOP"
    "mover (apply_moves (ents w) w1) e"
    using apply_moves_pos [of w1 e "ents w"] m1 assms(1) by auto
  have mt: "move_to (apply_moves (ents w) w1) = move_to w1" using apply_moves_fields by simp
  have "mover (delete_dead (apply_moves (ents w) w1)) e" using a(3) by (simp add: mover_def)
  then show ?thesis
    using a mt pickup_frame [of "delete_dead (apply_moves (ents w) w1)" e]
    unfolding process_actions_def w1_def [symmetric] by simp
qed

lemma process_actions_ents: "set (ents (process_actions w)) \<subseteq> set (ents w)"
proof -
  obtain w' d where pl: "pickuppers_loop (ents (delete_dead (apply_moves (ents w) (plan_moves (ents w) (ents w) w))))
      (delete_dead (apply_moves (ents w) (plan_moves (ents w) (ents w) w)), []) = (w', d)" by fastforce
  have "set (ents (delete_dead (apply_moves (ents w) (plan_moves (ents w) (ents w) w)))) \<subseteq> set (ents w)"
    using delete_dead_fields(7) apply_moves_fields plan_moves_fields by metis
  then show ?thesis using pickup_fields [OF pl] pl by (auto simp: process_actions_def pickup_def)
qed

lemma process_actions_nonmover:
  assumes "\<not> mover w e"
  shows "pos (process_actions w) e = pos w e \<and> move_to (process_actions w) e = move_to w e"
proof -
  define w1 where "w1 = plan_moves (ents w) (ents w) w"
  have f: "act w1 e = act w e" "move_to w1 e = move_to w e" "pos w1 = pos w" "melee_damage w1 = melee_damage w"
    "team w1 = team w"
    using plan_moves_fields assms unfolding w1_def by blast+
  then have nm: "\<not> mover w1 e" using assms by (simp add: mover_def)
  have "pos (apply_moves (ents w) w1) e = pos w e" using apply_moves_pos [of w1 e "ents w"] nm f by simp
  then show ?thesis using f apply_moves_fields [of "ents w" w1] pickup_frame [of "delete_dead (apply_moves (ents w) w1)" e]
    unfolding process_actions_def w1_def [symmetric] by simp
qed

lemma grid_dist_self [simp]: "grid_dist p p = 0"
  by (simp add: grid_dist_def)

lemma move_pos_dist: "grid_dist p (move_pos p a) \<le> 1"
  by (cases p; cases a) (simp_all add: grid_dist_def)

lemma counter_flags_map:
  "one_counter w p n c \<Longrightarrow> counter_flags k w = Some (map (\<lambda>i. (c + 1 + int i) mod n = 0) [0..<k])"
proof (induction k arbitrary: w c)
  case 0
  then show ?case by simp
next
  case (Suc k)
  define c' where "c' = (if c + 1 = n then 0 else c + 1)"
  note u = upd_one [OF Suc.prems, folded c'_def]
  have c': "c' = (c + 1) mod n" using Suc.prems by (auto simp: one_counter_def c'_def)
  have step: "(c' + 1 + int i) mod n = (c + 1 + int (Suc i)) mod n" for i
  proof -
    have "(c' + 1 + int i) mod n = ((c + 1) mod n + (1 + int i)) mod n" by (simp add: c' add.assoc)
    also have "\<dots> = (c + 1 + (1 + int i)) mod n" by (rule mod_add_left_eq)
    finally show ?thesis by (simp add: algebra_simps)
  qed
  have "map (\<lambda>i. (c' + 1 + int i) mod n = 0) [0..<k] = map (\<lambda>i. (c + 1 + int (Suc i)) mod n = 0) [0..<k]"
    by (simp add: step)
  moreover have "(c + 1 = n) = ((c + 1) mod n = 0)"
    using Suc.prems by (cases "c + 1 = n") (auto simp: one_counter_def mod_pos_pos_trivial)
  ultimately show ?case
    using Suc.IH [OF conjunct2 [OF u]] conjunct1 [OF u] by (simp add: map_upt_Suc del: upt_Suc)
qed

lemma flags_window:
  assumes "0 \<le> c" "c < (n::int)"
  shows "map (\<lambda>i. (c + 1 + int i) mod n = 0) [0..<nat n] =
         replicate (nat (n - c - 1)) False @ True # replicate (nat c) False"
proof (rule nth_equalityI)
  show "length (map (\<lambda>i. (c + 1 + int i) mod n = 0) [0..<nat n]) =
        length (replicate (nat (n - c - 1)) False @ True # replicate (nat c) False)"
    using assms by simp
next
  fix i assume "i < length (map (\<lambda>i. (c + 1 + int i) mod n = 0) [0..<nat n])"
  then have i: "int i < n" "i < nat n" by (simp_all add: zless_nat_eq_int_zless)
  consider "int i < n - c - 1" | "int i = n - c - 1" | "n - c - 1 < int i" by linarith
  then show "map (\<lambda>i. (c + 1 + int i) mod n = 0) [0..<nat n] ! i =
             (replicate (nat (n - c - 1)) False @ True # replicate (nat c) False) ! i"
  proof cases
    case 1
    then have "i < nat (n - c - 1)" by (simp add: zless_nat_eq_int_zless)
    then show ?thesis using assms i 1 by (simp add: nth_append)
  next
    case 2
    then have "i = length (replicate (nat (n - c - 1)) False)" by simp
    then have r: "(replicate (nat (n - c - 1)) False @ True # replicate (nat c) False) ! i"
      by (simp only: nth_append_length)
    have "c + 1 + int i = n" using 2 by simp
    then show ?thesis using i r by simp
  next
    case 3
    have x: "0 \<le> c + 1 + int i - n" "c + 1 + int i - n < n" using assms i 3 by linarith+
    have "(c + 1 + int i) mod n = (c + 1 + int i - n + n) mod n" by simp
    also have "\<dots> = c + 1 + int i - n" using x by (simp only: mod_add_self2 mod_pos_pos_trivial)
    finally have "(c + 1 + int i) mod n = c + 1 + int i - n" .
    moreover have "nat (n - c - 1) < i" using 3 assms by (simp add: nat_less_iff)
    ultimately show ?thesis using assms i 3 by (simp add: nth_append nth_Cons')
  qed
qed


lemma process_actions_sync: "pos_sync w \<Longrightarrow> pos_sync (process_actions w)"
  unfolding pos_sync_def
proof (intro ballI impI)
  fix e assume sync: "\<forall>e \<in> set (ents w). move_to w e \<noteq> None \<longrightarrow> pos w e = move_to w e"
    and e: "e \<in> set (ents (process_actions w))" and m: "move_to (process_actions w) e \<noteq> None"
  have ew: "e \<in> set (ents w)" using e process_actions_ents by blast
  show "pos (process_actions w) e = move_to (process_actions w) e"
  proof (cases "mover w e")
    case True
    then show ?thesis using process_actions_pos [OF ew] by simp
  next
    case False
    then show ?thesis using process_actions_nonmover [OF False] sync ew m by simp
  qed
qed

lemma statics_upd [simp]:
  "statics (w\<lparr>ents := x\<rparr>) = statics w" "statics (w\<lparr>pos := x'\<rparr>) = statics w"
  "statics (w\<lparr>hitpoints := h\<rparr>) = statics w" "statics (w\<lparr>act := a\<rparr>) = statics w"
  "statics (w\<lparr>move_to := m\<rparr>) = statics w" "statics (w\<lparr>melee_damage := d\<rparr>) = statics w"
  by (simp_all add: statics_def)

lemma statics_fields:
  "statics w' = statics w \<Longrightarrow> team w' = team w \<and> num_acts w' = num_acts w \<and> is_player w' = is_player w \<and>
   can_pickup w' = can_pickup w \<and> cur_wp w' = cur_wp w \<and> next_wp w' = next_wp w"
  unfolding statics_def by (cases w, cases w') simp

lemma statics_plan_moves: "statics (plan_moves checks es w) = statics w"
proof (induction es arbitrary: w)
  case Nil
  then show ?case by simp
next
  case (Cons e es)
  show ?case
  proof (cases "mover w e")
    case False
    then show ?thesis unfolding plan_moves_skip [OF False] using Cons.IH by simp
  next
    case True
    then obtain a p m dmg tm where c: "act w e = Some a" "pos w e = Some p" "move_to w e = Some m"
      "melee_damage w e = Some dmg" "team w e = Some tm"
      by (auto simp: mover_def)
    obtain blocked w1 where al: "attack_loop e (move_pos p a) dmg tm checks (False, w) = (blocked, w1)"
      by fastforce
    have "statics w1 = statics (w1\<lparr>hitpoints := Map.empty\<rparr>)" by simp
    also have "\<dots> = statics w" using attack_loop_frame [of e "move_pos p a" dmg tm checks False w] al by simp
    finally have "statics w1 = statics w" .
    then show ?thesis using plan_moves_step [OF c al] Cons.IH by simp
  qed
qed

lemma statics_apply_moves: "statics (apply_moves es w) = statics w"
  by (induction es arbitrary: w) simp_all

lemma statics_pickuppers: "pickuppers_loop es (w, d) = (w', d') \<Longrightarrow> statics w' = statics w"
proof (induction es arbitrary: w d)
  case Nil
  then show ?case by simp
next
  case (Cons e es)
  then show ?case by (auto split: option.splits if_splits prod.splits)
qed

lemma statics_process_actions: "statics (process_actions w) = statics w"
proof -
  define w1 where "w1 = delete_dead (apply_moves (ents w) (plan_moves (ents w) (ents w) w))"
  obtain w' d where pl: "pickuppers_loop (ents w1) (w1, []) = (w', d)" by fastforce
  have "statics w1 = statics w" by (simp add: w1_def delete_dead_def statics_apply_moves statics_plan_moves)
  then show ?thesis using statics_pickuppers [OF pl] pl by (simp add: process_actions_def pickup_def w1_def [symmetric])
qed

lemma counters_ok_mono:
  "counters_ok w \<Longrightarrow> set (ents w') \<subseteq> set (ents w) \<Longrightarrow> statics w' = statics w \<Longrightarrow> counters_ok w'"
  unfolding counters_ok_def using statics_fields by (metis subsetD)

lemma world_inv_cong:
  assumes "ents w' = ents w" "pos w' = pos w" "move_to w' = move_to w" "hitpoints w' = hitpoints w"
    "team w' = team w" "is_player w' = is_player w" "num_acts w' = num_acts w"
  shows "world_inv w' = world_inv w"
  using assms by (simp add: world_inv_def cells_distinct_def movers_wf_def pos_sync_def counters_ok_def)

lemma process_actions_inv: "world_inv w \<Longrightarrow> world_inv (process_actions w)"
  unfolding world_inv_def
  using process_actions_cells process_actions_sync
    counters_ok_mono [OF _ process_actions_ents statics_process_actions] by blast

lemma upd_player_inv:
  assumes "world_inv w" "upd_player_actions_count w = Some (r, w')"
  shows "world_inv w'"
proof -
  have eq: "w' = w\<lparr>num_acts := num_acts w'\<rparr>"
    using upd_loop_frame assms(2) unfolding upd_player_actions_count_def by blast
  obtain r1 w1 where "upd_player_actions_count w = Some (r1, w1)" "counters_ok w1"
    using upd_loop_counters [of "ents w" w False] assms(1)
    unfolding world_inv_def upd_player_actions_count_def by auto
  then have "counters_ok w'" using assms(2) by simp
  moreover have "cells_distinct w' \<and> movers_wf w' \<and> pos_sync w'"
  proof -
    have "ents w' = ents w" "move_to w' = move_to w" "hitpoints w' = hitpoints w" "team w' = team w"
      "pos w' = pos w"
      by (subst eq, simp)+
    then show ?thesis using assms(1) by (simp add: world_inv_def cells_distinct_def movers_wf_def pos_sync_def)
  qed
  ultimately show ?thesis by (simp add: world_inv_def)
qed

section \<open>Properties of a turn's resolution and of the counter\<close>

text \<open>C30: resolving the actions moves an entity by at most one grid cell: a
  mover that stood on its \<open>MovePos\<close> ends on the cell its action leads to or,
  when that cell was taken, where it stood.\<close>

theorem process_actions_one_cell:
  assumes "distinct (ents w)" "pos_sync w" "e \<in> set (ents w)" "mover w e" "pos w e = Some p"
  shows "\<exists>q. pos (process_actions w) e = Some q \<and> grid_dist p q \<le> 1"
proof -
  obtain a where a: "act w e = Some a" using assms(4) by (auto simp: mover_def)
  have "move_to w e = Some p" using assms(2-5) by (auto simp: pos_sync_def mover_def)
  then have "move_to (plan_moves (ents w) (ents w) w) e \<in> {Some p, Some (move_pos p a)}"
    using plan_moves_target [OF assms(1,3) a assms(5,4)] by simp
  then obtain q where q: "move_to (plan_moves (ents w) (ents w) w) e = Some q" "q = p \<or> q = move_pos p a"
    by blast
  have "pos (process_actions w) e = Some q" using process_actions_pos [OF assms(3,4)] q(1) by simp
  moreover have "grid_dist p q \<le> 1" using q(2) move_pos_dist [of p a] by auto
  ultimately show ?thesis by blast
qed

theorem process_actions_one_cell_witness:
  "distinct (ents demo_world) \<and> pos_sync demo_world \<and> 1 \<in> set (ents demo_world) \<and>
   mover demo_world 1 \<and> pos demo_world 1 = Some (0, 0) \<and>
   (\<exists>q. pos (process_actions demo_world) 1 = Some q \<and> grid_dist (0, 0) q \<le> 1)"
proof -
  have h: "distinct (ents demo_world)" "pos_sync demo_world" "1 \<in> set (ents demo_world)"
    "mover demo_world 1" "pos demo_world 1 = Some (0, 0)"
    by (simp_all add: demo_world_def pos_sync_def mover_def)
  show ?thesis using h process_actions_one_cell [OF h] by simp
qed

text \<open>C31: with every player's counter in \<open>[0, numActions)\<close>,
  \<open>upd_player_actions_count\<close> never divides by zero and leaves every counter in
  range, so \<open>curActions + 1\<close> never exceeds \<open>numActions\<close> and cannot overflow
  an \<open>int\<close>.\<close>

lemma upd_counters_ok:
  "counters_ok w \<Longrightarrow> upd_player_actions_count w \<noteq> None"
  unfolding upd_player_actions_count_def using upd_loop_counters [of "ents w" w False] by auto

theorem upd_counters_in_range:
  "counters_ok w \<Longrightarrow> \<exists>r w'. upd_player_actions_count w = Some (r, w') \<and> counters_ok w'"
  unfolding upd_player_actions_count_def by (rule upd_loop_counters) simp_all

theorem upd_counters_in_range_witness:
  "counters_ok demo_world \<and> (\<exists>r w'. upd_player_actions_count demo_world = Some (r, w') \<and> counters_ok w')"
proof -
  have h: "counters_ok demo_world" by (simp add: demo_world_def counters_ok_def counter_ok_def)
  show ?thesis using h upd_counters_in_range [OF h] by simp
qed

text \<open>C32: with one player whose counter is \<open>c\<close> of \<open>n\<close>, the NPCs plan on
  exactly one of any \<open>n\<close> successive acted turns: the \<open>n - c\<close>-th.\<close>

theorem npc_plans_once_per_window:
  "one_counter w p n c \<Longrightarrow>
   counter_flags (nat n) w = Some (replicate (nat (n - c - 1)) False @ True # replicate (nat c) False)"
  using counter_flags_map [of w p n c "nat n"] flags_window [of c n] by (simp add: one_counter_def)

theorem npc_plans_once_per_window_witness:
  "one_counter demo_world 2 2 0 \<and> counter_flags 2 demo_world = Some [False, True]"
proof -
  have h: "one_counter demo_world 2 2 0" by (simp add: one_counter_def demo_world_def)
  show ?thesis using h npc_plans_once_per_window [OF h] by simp
qed

end
