(* ===== verification/Composites.thy ===== *)
theory Composites
  imports BT_Prelude
begin

text \<open>
  The composite nodes of src/w2/behLibrary.cpp (\<open>Sequence\<close>, \<open>Selector\<close>,
  \<open>OrNode\<close>, \<open>Parallel\<close>, \<open>NotNode\<close>) and the event forwarding of
  \<open>CompoundNode::react\<close> and \<open>FixedArityCompoundNode::react\<close>. A composite
  holds its children as \<open>BehNode*\<close> and calls their virtual \<open>update\<close>; here a
  child is its update method, a runner over any state, so every lemma holds for
  children of any behaviour. The \<open>for\<close> loops become recursion over the child
  list, with the loop's flags as accumulators.

  Each composite is related to a specification over the list of child results
  (\<open>seq_spec\<close> and its kin), and the children it invokes are counted with probe
  children that return a fixed result and bump a counter, as the testable
  properties of the spec do.
\<close>

section \<open>The composites\<close>

text \<open>\<open>Sequence::update\<close>: return the first result that is not success.\<close>

fun sequence_update :: "('e, 's) runner list \<Rightarrow> ('e, 's) runner" where
  "sequence_update [] s = Inr (BEH_SUCCESS, s)"
| "sequence_update (n # ns) s =
     (case n s of
        Inl e \<Rightarrow> Inl e
      | Inr (res, s') \<Rightarrow> if res \<noteq> BEH_SUCCESS then Inr (res, s') else sequence_update ns s')"

text \<open>\<open>Selector::update\<close>: return the first result that is not a failure.\<close>

fun selector_update :: "('e, 's) runner list \<Rightarrow> ('e, 's) runner" where
  "selector_update [] s = Inr (BEH_FAIL, s)"
| "selector_update (n # ns) s =
     (case n s of
        Inl e \<Rightarrow> Inl e
      | Inr (res, s') \<Rightarrow> if res \<noteq> BEH_FAIL then Inr (res, s') else selector_update ns s')"

text \<open>\<open>OrNode::update\<close>, with the flag \<open>anySuccess\<close> as accumulator.\<close>

fun or_loop :: "bool \<Rightarrow> ('e, 's) runner list \<Rightarrow> ('e, 's) runner" where
  "or_loop anySuccess [] s = Inr (if anySuccess then BEH_SUCCESS else BEH_FAIL, s)"
| "or_loop anySuccess (n # ns) s =
     (case n s of
        Inl e \<Rightarrow> Inl e
      | Inr (res, s') \<Rightarrow>
          if res = BEH_SUCCESS then or_loop True ns s'
          else if res = BEH_RUNNING then Inr (res, s')
          else or_loop anySuccess ns s')"

definition or_update :: "('e, 's) runner list \<Rightarrow> ('e, 's) runner" where
  "or_update ns = or_loop False ns"

text \<open>\<open>Parallel::update\<close>, with \<open>allSuccess\<close> and \<open>allFinished\<close>.\<close>

fun parallel_loop :: "bool \<Rightarrow> bool \<Rightarrow> ('e, 's) runner list \<Rightarrow> ('e, 's) runner" where
  "parallel_loop allSuccess allFinished [] s =
     Inr (if \<not> allFinished then BEH_RUNNING
          else if allSuccess then BEH_SUCCESS else BEH_FAIL, s)"
| "parallel_loop allSuccess allFinished (n # ns) s =
     (case n s of
        Inl e \<Rightarrow> Inl e
      | Inr (res, s') \<Rightarrow>
          if res = BEH_FAIL then parallel_loop False allFinished ns s'
          else if res = BEH_RUNNING then parallel_loop allSuccess False ns s'
          else parallel_loop allSuccess allFinished ns s')"

definition parallel_update :: "('e, 's) runner list \<Rightarrow> ('e, 's) runner" where
  "parallel_update ns = parallel_loop True True ns"

text \<open>\<open>NotNode::update\<close> on its single child \<open>m_children.front()\<close>.\<close>

definition not_update :: "('e, 's) runner \<Rightarrow> ('e, 's) runner" where
  "not_update n s =
     (case n s of
        Inl e \<Rightarrow> Inl e
      | Inr (res, s') \<Rightarrow>
          if res = BEH_FAIL then Inr (BEH_SUCCESS, s')
          else if res = BEH_SUCCESS then Inr (BEH_FAIL, s')
          else Inr (res, s'))"

text \<open>
  \<open>CompoundNode::react\<close> and \<open>FixedArityCompoundNode::react\<close>: forward the
  event to every child in order, unconditionally.
\<close>

fun react_all :: "('e, 's) reactor list \<Rightarrow> ('e, 's) reactor" where
  "react_all [] s = Inr s"
| "react_all (r # rs) s = (case r s of Inl e \<Rightarrow> Inl e | Inr s' \<Rightarrow> react_all rs s')"

section \<open>Specifications over the children's results\<close>

definition seq_spec :: "beh_result list \<Rightarrow> beh_result" where
  "seq_spec rs = (case dropWhile (\<lambda>r. r = BEH_SUCCESS) rs of [] \<Rightarrow> BEH_SUCCESS | r # _ \<Rightarrow> r)"

definition sel_spec :: "beh_result list \<Rightarrow> beh_result" where
  "sel_spec rs = (case dropWhile (\<lambda>r. r = BEH_FAIL) rs of [] \<Rightarrow> BEH_FAIL | r # _ \<Rightarrow> r)"

definition or_spec :: "beh_result list \<Rightarrow> beh_result" where
  "or_spec rs =
     (if BEH_RUNNING \<in> set rs then BEH_RUNNING
      else if BEH_SUCCESS \<in> set rs then BEH_SUCCESS else BEH_FAIL)"

definition parallel_spec :: "beh_result list \<Rightarrow> beh_result" where
  "parallel_spec rs =
     (if BEH_RUNNING \<in> set rs then BEH_RUNNING
      else if BEH_FAIL \<in> set rs then BEH_FAIL else BEH_SUCCESS)"

definition not_spec :: "beh_result \<Rightarrow> beh_result" where
  "not_spec r = (case r of BEH_SUCCESS \<Rightarrow> BEH_FAIL | BEH_FAIL \<Rightarrow> BEH_SUCCESS | BEH_RUNNING \<Rightarrow> BEH_RUNNING)"

text \<open>
  How many children, counted from the first, a composite invokes: up to and
  including the first child whose result stops the loop.
\<close>

definition invoked_until :: "(beh_result \<Rightarrow> bool) \<Rightarrow> beh_result list \<Rightarrow> nat" where
  "invoked_until stop rs =
     (if \<exists>r \<in> set rs. stop r then Suc (length (takeWhile (\<lambda>r. \<not> stop r) rs)) else length rs)"

section \<open>Probe children\<close>

text \<open>
  A probe child \<open>i\<close> returns the fixed result \<open>r\<close> and counts its invocation in
  counter \<open>i\<close>; \<open>probes rs k\<close> are probes numbered \<open>k, k + 1, \<dots>\<close> returning
  \<open>rs\<close>. \<open>bump k m c\<close> is the counter state after probes \<open>k\<close> to
  \<open>k + m - 1\<close> have each run once.
\<close>

definition probe :: "nat \<Rightarrow> beh_result \<Rightarrow> ('e, nat \<Rightarrow> nat) runner" where
  "probe i r c = Inr (r, c(i := Suc (c i)))"

primrec probes :: "beh_result list \<Rightarrow> nat \<Rightarrow> ('e, nat \<Rightarrow> nat) runner list" where
  "probes [] k = []"
| "probes (r # rs) k = probe k r # probes rs (Suc k)"

definition bump :: "nat \<Rightarrow> nat \<Rightarrow> (nat \<Rightarrow> nat) \<Rightarrow> (nat \<Rightarrow> nat)" where
  "bump k m c = (\<lambda>j. if k \<le> j \<and> j < k + m then Suc (c j) else c j)"

text \<open>
  \<open>run_each\<close> runs every child once, in order, and ignores the results: the
  state effect of a pass that never short-circuits. \<open>rprobe i\<close> is a child whose
  \<open>react\<close> counts the events it receives in counter \<open>i\<close>.
\<close>

fun run_each :: "('e, 's) runner list \<Rightarrow> ('e, 's) reactor" where
  "run_each [] s = Inr s"
| "run_each (n # ns) s = (case n s of Inl e \<Rightarrow> Inl e | Inr (_, s') \<Rightarrow> run_each ns s')"

definition rprobe :: "nat \<Rightarrow> ('e, nat \<Rightarrow> nat) reactor" where
  "rprobe i c = Inr (c(i := Suc (c i)))"

section \<open>Properties of the composites\<close>

lemma bump_0 [simp]: "bump k 0 c = c"
  by (auto simp: bump_def)

lemma bump_Suc: "bump (Suc k) m (c(k := Suc (c k))) = bump k (Suc m) c"
  by (auto simp: bump_def)

text \<open>
  C1: \<open>Sequence\<close> returns the first child result that is not success, and
  success when every child succeeds; it invokes the children in order up to and
  including that first non-success, and no child after it.
\<close>

theorem sequence_probes:
  "sequence_update (probes rs k) c =
     Inr (seq_spec rs, bump k (invoked_until (\<lambda>r. r \<noteq> BEH_SUCCESS) rs) c)"
proof (induction rs arbitrary: k c)
  case Nil
  then show ?case by (simp add: seq_spec_def invoked_until_def)
next
  case (Cons r rs)
  then show ?case
    by (cases "r = BEH_SUCCESS")
       (auto simp: probe_def seq_spec_def invoked_until_def bump_Suc[symmetric] bump_def)
qed

theorem sequence_probes_witness:
  "\<exists>c. sequence_update (probes [BEH_SUCCESS, BEH_FAIL, BEH_SUCCESS] 0 :: (unit, nat \<Rightarrow> nat) runner list) (\<lambda>_. 0)
         = Inr (BEH_FAIL, c) \<and> c 0 = 1 \<and> c 1 = 1 \<and> c 2 = 0"
  unfolding sequence_probes by (simp add: seq_spec_def invoked_until_def bump_def)

text \<open>For children of any behaviour, a \<open>Sequence\<close> over \<open>ns @ ms\<close> first runs
  \<open>ns\<close>; if that stops with an error or a result other than success, no child of
  \<open>ms\<close> is invoked and the state is the one \<open>ns\<close> left.\<close>

lemma sequence_update_append:
  "sequence_update (ns @ ms) s =
     (case sequence_update ns s of
        Inl e \<Rightarrow> Inl e
      | Inr (r, s') \<Rightarrow> if r \<noteq> BEH_SUCCESS then Inr (r, s') else sequence_update ms s')"
  by (induction ns arbitrary: s) (auto split: sum.split)

text \<open>
  C6: for stateful children of any behaviour, once a prefix \<open>ns\<close> of a
  \<open>Sequence\<close> has succeeded, the next child \<open>m\<close> decides: an error, a failure
  or a running result ends the \<open>Sequence\<close> with that outcome and the state
  \<open>m\<close> left, no later child is invoked; a success goes on with the rest.
\<close>

theorem sequence_update_next:
  assumes "sequence_update ns s = Inr (BEH_SUCCESS, s1)"
  shows "sequence_update (ns @ m # ms) s =
     (case m s1 of
        Inl e \<Rightarrow> Inl e
      | Inr (r, s2) \<Rightarrow> if r = BEH_SUCCESS then sequence_update ms s2 else Inr (r, s2))"
  using assms by (simp add: sequence_update_append split: sum.split)

theorem sequence_update_next_witness:
  "sequence_update [\<lambda>s. Inr (BEH_SUCCESS, s + 1)] (0 :: nat) = (Inr (BEH_SUCCESS, 1) :: unit + _) \<and>
   sequence_update ([\<lambda>s. Inr (BEH_SUCCESS, s + 1)] @ [\<lambda>s. Inr (BEH_RUNNING, s + 1), \<lambda>s. Inr (BEH_FAIL, s + 5)]) (0 :: nat)
     = (Inr (BEH_RUNNING, 2) :: unit + _)"
proof -
  have h: "sequence_update [\<lambda>s. Inr (BEH_SUCCESS, s + 1)] (0 :: nat) = (Inr (BEH_SUCCESS, 1) :: unit + _)"
    by simp
  show ?thesis using h sequence_update_next [OF h, of "\<lambda>s. Inr (BEH_RUNNING, s + 1)" "[\<lambda>s. Inr (BEH_FAIL, s + 5)]"]
    by simp
qed

lemma or_loop_append:
  "or_loop b (ns @ ms) s =
     (case or_loop b ns s of
        Inl e \<Rightarrow> Inl e
      | Inr (r, s') \<Rightarrow> if r = BEH_RUNNING then Inr (r, s') else or_loop (r = BEH_SUCCESS) ms s')"
  by (induction b ns s rule: or_loop.induct) (auto split: sum.split)


text \<open>
  C2: \<open>Selector\<close> returns the first child result that is not a failure, and
  failure when every child fails; no child after that first result is invoked.
\<close>

theorem selector_probes:
  "selector_update (probes rs k) c =
     Inr (sel_spec rs, bump k (invoked_until (\<lambda>r. r \<noteq> BEH_FAIL) rs) c)"
proof (induction rs arbitrary: k c)
  case Nil
  then show ?case by (simp add: sel_spec_def invoked_until_def)
next
  case (Cons r rs)
  then show ?case
    by (cases "r = BEH_FAIL")
       (auto simp: probe_def sel_spec_def invoked_until_def bump_Suc[symmetric] bump_def)
qed

theorem selector_probes_witness:
  "\<exists>c. selector_update (probes [BEH_FAIL, BEH_RUNNING, BEH_SUCCESS] 0 :: (unit, nat \<Rightarrow> nat) runner list) (\<lambda>_. 0)
         = Inr (BEH_RUNNING, c) \<and> c 0 = 1 \<and> c 1 = 1 \<and> c 2 = 0"
  unfolding selector_probes by (simp add: sel_spec_def invoked_until_def bump_def)

lemma or_loop_probes:
  "or_loop b (probes rs k) c =
     Inr (if BEH_RUNNING \<in> set rs then BEH_RUNNING
          else if b \<or> BEH_SUCCESS \<in> set rs then BEH_SUCCESS else BEH_FAIL,
          bump k (invoked_until (\<lambda>r. r = BEH_RUNNING) rs) c)"
proof (induction rs arbitrary: b k c)
  case Nil
  then show ?case by (simp add: invoked_until_def)
next
  case (Cons r rs)
  then show ?case
    by (cases r) (auto simp: probe_def invoked_until_def bump_Suc[symmetric] bump_def)
qed

text \<open>
  C3: \<open>OrNode\<close> returns running at the first running child and invokes no child
  after it; otherwise it invokes every child, also after a success, and returns
  success iff some child succeeded.
\<close>

theorem or_probes:
  "or_update (probes rs k) c =
     Inr (or_spec rs, bump k (invoked_until (\<lambda>r. r = BEH_RUNNING) rs) c)"
  by (simp add: or_update_def or_loop_probes or_spec_def)

theorem or_probes_witness:
  "(\<exists>c. or_update (probes [BEH_SUCCESS, BEH_FAIL, BEH_SUCCESS] 0 :: (unit, nat \<Rightarrow> nat) runner list) (\<lambda>_. 0)
          = Inr (BEH_SUCCESS, c) \<and> c 0 = 1 \<and> c 1 = 1 \<and> c 2 = 1) \<and>
   (\<exists>c. or_update (probes [BEH_RUNNING, BEH_SUCCESS] 0 :: (unit, nat \<Rightarrow> nat) runner list) (\<lambda>_. 0)
          = Inr (BEH_RUNNING, c) \<and> c 0 = 1 \<and> c 1 = 0)"
  unfolding or_probes by (simp add: or_spec_def invoked_until_def bump_def)

lemma parallel_loop_probes:
  "parallel_loop a f (probes rs k) c =
     Inr (if \<not> f \<or> BEH_RUNNING \<in> set rs then BEH_RUNNING
          else if \<not> a \<or> BEH_FAIL \<in> set rs then BEH_FAIL else BEH_SUCCESS,
          bump k (length rs) c)"
proof (induction rs arbitrary: a f k c)
  case Nil
  then show ?case by simp
next
  case (Cons r rs)
  then show ?case
    by (cases r) (auto simp: probe_def bump_Suc[symmetric])
qed

text \<open>
  C4: \<open>Parallel\<close> invokes every child once per tick and returns running if any
  child runs, otherwise failure if any child fails, otherwise success.
\<close>

theorem parallel_probes:
  "parallel_update (probes rs k) c = Inr (parallel_spec rs, bump k (length rs) c)"
  by (simp add: parallel_update_def parallel_loop_probes parallel_spec_def)

theorem parallel_probes_witness:
  "\<exists>c. parallel_update (probes [BEH_RUNNING, BEH_FAIL] 0 :: (unit, nat \<Rightarrow> nat) runner list) (\<lambda>_. 0)
         = Inr (BEH_RUNNING, c) \<and> c 0 = 1 \<and> c 1 = 1"
  unfolding parallel_probes by (simp add: parallel_spec_def bump_def)

lemma not_update_spec:
  "not_update n s = (case n s of Inl e \<Rightarrow> Inl e | Inr (r, s') \<Rightarrow> Inr (not_spec r, s'))"
  by (auto simp: not_update_def not_spec_def split: sum.split beh_result.split)

text \<open>
  C5: \<open>NotNode\<close> turns a success of its child into a failure and a failure
  into a success, passes running, the child's state and its errors through, so
  two nested \<open>NotNode\<close>s behave exactly as their child.
\<close>

theorem not_update_inverts:
  "not_update n s =
     (case n s of
        Inl e \<Rightarrow> Inl e
      | Inr (r, s') \<Rightarrow> Inr (case r of BEH_SUCCESS \<Rightarrow> BEH_FAIL | BEH_FAIL \<Rightarrow> BEH_SUCCESS | BEH_RUNNING \<Rightarrow> BEH_RUNNING, s')) \<and>
   not_update (not_update n) s = n s"
  by (auto simp: not_update_spec not_spec_def split: sum.split beh_result.split)

lemma parallel_loop_run_each:
  "map_sum id snd (parallel_loop a f ns s) = run_each ns s"
  by (induction a f ns s rule: parallel_loop.induct) (auto split: sum.split)

text \<open>
  C7: for children of any behaviour, the state after \<open>Parallel::update\<close> is the
  state after running every child once in order: no child is skipped.
\<close>

theorem parallel_update_run_each:
  "map_sum id snd (parallel_update ns s) = run_each ns s"
  by (simp add: parallel_update_def parallel_loop_run_each)

text \<open>
  C8: \<open>CompoundNode::react\<close> forwards an event to every child, each exactly
  once and in order, whatever the children's update would return.
\<close>

theorem react_all_rprobes:
  "react_all (map rprobe is) c = Inr (\<lambda>j. c j + count_list is j)"
  by (induction "is" arbitrary: c) (auto simp: rprobe_def)

theorem react_all_rprobes_witness:
  "\<exists>c. react_all (map rprobe [0, 1, 2] :: (unit, nat \<Rightarrow> nat) reactor list) (\<lambda>_. 0)
         = Inr c \<and> c 0 = 1 \<and> c 1 = 1 \<and> c 2 = 1"
  unfolding react_all_rprobes by simp

section \<open>The composites pass invariants on from their children\<close>

lemma keeps_sequence:
  "\<forall>n \<in> set ns. keeps P Q n \<Longrightarrow> keeps P Q (sequence_update ns)"
proof (induction ns)
  case Nil
  then show ?case by (simp add: keeps_def)
next
  case (Cons n ns)
  have "sequence_update (n # ns) = (\<lambda>s. case n s of Inl e \<Rightarrow> Inl e
          | Inr (r, s') \<Rightarrow> (if r \<noteq> BEH_SUCCESS then (\<lambda>s. Inr (r, s)) else sequence_update ns) s')"
    by (rule ext) (simp split: sum.split)
  then show ?case using Cons by (simp add: keeps_bind)
qed

lemma keeps_selector:
  "\<forall>n \<in> set ns. keeps P Q n \<Longrightarrow> keeps P Q (selector_update ns)"
proof (induction ns)
  case Nil
  then show ?case by (simp add: keeps_def)
next
  case (Cons n ns)
  have "selector_update (n # ns) = (\<lambda>s. case n s of Inl e \<Rightarrow> Inl e
          | Inr (r, s') \<Rightarrow> (if r \<noteq> BEH_FAIL then (\<lambda>s. Inr (r, s)) else selector_update ns) s')"
    by (rule ext) (simp split: sum.split)
  then show ?case using Cons by (simp add: keeps_bind)
qed

lemma keeps_or_loop:
  "\<forall>n \<in> set ns. keeps P Q n \<Longrightarrow> keeps P Q (or_loop b ns)"
proof (induction ns arbitrary: b)
  case Nil
  then show ?case by (simp add: keeps_def)
next
  case (Cons n ns)
  have "or_loop b (n # ns) = (\<lambda>s. case n s of Inl e \<Rightarrow> Inl e
          | Inr (r, s') \<Rightarrow> (if r = BEH_SUCCESS then or_loop True ns
                             else if r = BEH_RUNNING then (\<lambda>s. Inr (r, s)) else or_loop b ns) s')"
    by (rule ext) (simp split: sum.split)
  then show ?case using Cons by (simp add: keeps_bind)
qed

lemma keeps_parallel_loop:
  "\<forall>n \<in> set ns. keeps P Q n \<Longrightarrow> keeps P Q (parallel_loop a f ns)"
proof (induction ns arbitrary: a f)
  case Nil
  then show ?case by (simp add: keeps_def)
next
  case (Cons n ns)
  have "parallel_loop a f (n # ns) = (\<lambda>s. case n s of Inl e \<Rightarrow> Inl e
          | Inr (r, s') \<Rightarrow> (if r = BEH_FAIL then parallel_loop False f ns
                             else if r = BEH_RUNNING then parallel_loop a False ns
                             else parallel_loop a f ns) s')"
    by (rule ext) (simp split: sum.split)
  then show ?case using Cons by (simp add: keeps_bind)
qed

lemma keeps_not: "keeps P Q n \<Longrightarrow> keeps P Q (not_update n)"
  unfolding not_update_spec [abs_def] by (simp add: keeps_bind)

lemma rkeeps_react_all:
  "\<forall>r \<in> set rs. rkeeps P Q r \<Longrightarrow> rkeeps P Q (react_all rs)"
proof (induction rs)
  case Nil
  then show ?case by (simp add: rkeeps_def)
next
  case (Cons r rs)
  have "react_all (r # rs) = (\<lambda>s. case r s of Inl e \<Rightarrow> Inl e | Inr s' \<Rightarrow> react_all rs s')"
    by (rule ext) simp
  then show ?case using Cons by (simp add: rkeeps_bind)
qed

lemma react_all_append:
  "react_all (xs @ ys) s = (case react_all xs s of Inl e \<Rightarrow> Inl e | Inr s' \<Rightarrow> react_all ys s')"
  by (induction xs arbitrary: s) (auto split: sum.split)

lemma react_all_concat:
  "(\<And>c s. c \<in> set cs \<Longrightarrow> r c s = react_all (map h (l c)) s) \<Longrightarrow>
   react_all (map r cs) s = react_all (map h (concat (map l cs))) s"
  by (induction cs arbitrary: s) (auto simp: react_all_append split: sum.split)

lemma react_all_single: "react_all [r] s = r s"
  by (cases "r s") simp_all

end
