(* ===== verification/Sampler.thy ===== *)
theory Sampler
  imports BT_Prelude
begin

text \<open>
  The weighted sampler \<open>rnd::sample\<close> of src/w3/randomUtil.hpp, used by the
  utility selector to draw one child with probability proportional to its score.
  The code normalises the weights by their \<open>float\<close> total, takes the partial sums
  as the borders of a cumulative distribution, draws \<open>random\<close> uniformly from
  \<open>[0, 1)\<close>, and picks the first border that is not below the draw with
  \<open>std::lower_bound\<close>; a draw beyond the last border is retried.

  Floating-point values are exact reals here, except that division by zero and
  the comparisons keep their IEEE meaning (\<open>flt\<close>): a total weight of zero makes
  every normalised weight \<open>0 / 0 = NaN\<close>, and \<open>NaN < random\<close> is false. The
  random engine is any function from an engine state to a draw and the next state.
  The retry loop has no bound in the code, so it is a \<open>partial_function\<close> in
  the option monad; that it returns after exactly one draw per item is a lemma.
\<close>

section \<open>IEEE-style values of the normalised weights\<close>

datatype flt = Fin real | PInf | NInf | NaN

fun fadd :: "flt \<Rightarrow> flt \<Rightarrow> flt" where
  "fadd NaN _ = NaN"
| "fadd _ NaN = NaN"
| "fadd PInf NInf = NaN"
| "fadd NInf PInf = NaN"
| "fadd PInf _ = PInf"
| "fadd _ PInf = PInf"
| "fadd NInf _ = NInf"
| "fadd _ NInf = NInf"
| "fadd (Fin a) (Fin b) = Fin (a + b)"

text \<open>\<open>weight / total_weight\<close> in \<open>float\<close>: \<open>x / 0\<close> is an infinity or NaN.\<close>

definition fdiv :: "real \<Rightarrow> real \<Rightarrow> flt" where
  "fdiv a b = (if b \<noteq> 0 then Fin (a / b) else if 0 < a then PInf else if a < 0 then NInf else NaN)"

text \<open>\<open>*it < value\<close> inside \<open>std::lower_bound\<close>, with a finite \<open>value\<close>.\<close>

fun flt_less :: "flt \<Rightarrow> real \<Rightarrow> bool" where
  "flt_less (Fin a) v = (a < v)"
| "flt_less PInf v = False"
| "flt_less NInf v = True"
| "flt_less NaN v = False"

text \<open>\<open>std::partial_sum\<close>: the running sums, the first element as it is.\<close>

fun partial_sum_from :: "flt \<Rightarrow> flt list \<Rightarrow> flt list" where
  "partial_sum_from acc [] = []"
| "partial_sum_from acc (x # xs) = (let a = fadd acc x in a # partial_sum_from a xs)"

definition partial_sum :: "flt list \<Rightarrow> flt list" where
  "partial_sum xs = (case xs of [] \<Rightarrow> [] | x # xs' \<Rightarrow> x # partial_sum_from x xs')"

section \<open>Binary search\<close>

text \<open>
  \<open>std::lower_bound(first, last, value)\<close> as the library writes it: halve the
  range \<open>[first, first + len)\<close> until it is empty. \<open>lower_bound_spec\<close> is
  the linear reading, the number of leading elements below the value.
\<close>

function lb_search :: "flt list \<Rightarrow> real \<Rightarrow> nat \<Rightarrow> nat \<Rightarrow> nat" where
  "lb_search bs v first len =
     (if len = 0 then first
      else let half = len div 2; middle = first + half in
        if flt_less (bs ! middle) v then lb_search bs v (Suc middle) (len - half - 1)
        else lb_search bs v first half)"
  by pat_completeness auto
termination
  by (relation "measure (\<lambda>(bs, v, first, len). len)") auto

declare lb_search.simps [simp del]

definition lower_bound :: "flt list \<Rightarrow> real \<Rightarrow> nat" where
  "lower_bound bs v = lb_search bs v 0 (length bs)"

definition lower_bound_spec :: "flt list \<Rightarrow> real \<Rightarrow> nat" where
  "lower_bound_spec bs v = length (takeWhile (\<lambda>b. flt_less b v) bs)"

section \<open>The sampler\<close>

text \<open>
  The borders of \<open>rnd::sample\<close>: \<open>std::accumulate\<close> of the weights from
  \<open>0.0f\<close>, each weight divided by the total, then \<open>std::partial_sum\<close>.
\<close>

definition borders :: "real list \<Rightarrow> flt list" where
  "borders weights =
     (let total_weight = foldl (+) 0 weights;
          normalized = map (\<lambda>w. fdiv w total_weight) weights
      in partial_sum normalized)"

text \<open>
  The draw loop: \<open>for (generated = 0; generated < num; ++generated)\<close>, where a
  draw whose \<open>lower_bound\<close> is \<open>borders.end()\<close> does \<open>--generated;
  continue\<close> and so draws again for the same item. The result is the chosen
  offsets into the container, in the order drawn.
\<close>

partial_function (option) sample_loop ::
  "('g \<Rightarrow> real \<times> 'g) \<Rightarrow> flt list \<Rightarrow> nat \<Rightarrow> 'g \<Rightarrow> (nat list \<times> 'g) option" where
  "sample_loop distr bs num g =
     (if num = 0 then Some ([], g)
      else (case distr g of (random, g') \<Rightarrow>
        let item = lower_bound bs random in
        if item = length bs then sample_loop distr bs num g'
        else Option.bind (sample_loop distr bs (num - 1) g')
               (\<lambda>(rest, g''). Some (item # rest, g''))))"

text \<open>The same loop with one draw per item and no retry: the reference.\<close>

fun sample_ref :: "('g \<Rightarrow> real \<times> 'g) \<Rightarrow> flt list \<Rightarrow> nat \<Rightarrow> 'g \<Rightarrow> nat list \<times> 'g" where
  "sample_ref distr bs 0 g = ([], g)"
| "sample_ref distr bs (Suc n) g =
     (case distr g of (random, g') \<Rightarrow>
        case sample_ref distr bs n g' of (rest, g'') \<Rightarrow> (lower_bound bs random # rest, g''))"

text \<open>\<open>const_draw r\<close>: an engine that always draws \<open>r\<close> and counts its draws.\<close>

definition const_draw :: "real \<Rightarrow> nat \<Rightarrow> real \<times> nat" where
  "const_draw r n = (r, Suc n)"

definition sample :: "('g \<Rightarrow> real \<times> 'g) \<Rightarrow> 'g \<Rightarrow> real list \<Rightarrow> nat \<Rightarrow> (nat list \<times> 'g) option" where
  "sample distr g weights num = sample_loop distr (borders weights) num g"


section \<open>Binary search equals the linear search\<close>

lemma takeWhile_prefix_nth:
  assumes "sorted_wrt (\<lambda>a b. P b \<longrightarrow> P a) xs" "i < length xs" "P (xs ! i)"
  shows "takeWhile P xs = take (Suc i) xs @ takeWhile P (drop (Suc i) xs)"
proof -
  have "\<forall>x \<in> set (take (Suc i) xs). P x"
  proof
    fix x assume "x \<in> set (take (Suc i) xs)"
    then obtain j where j: "j < Suc i" "j < length xs" "x = xs ! j"
      by (auto simp: in_set_conv_nth)
    show "P x"
    proof (cases "j = i")
      case True with assms j show ?thesis by simp
    next
      case False
      with j have "j < i" by simp
      with assms show ?thesis unfolding sorted_wrt_iff_nth_less j(3) by blast
    qed
  qed
  then show ?thesis
    by (metis append_take_drop_id takeWhile_append2)
qed

lemma takeWhile_stop_nth:
  assumes "i < length xs" "\<not> P (xs ! i)"
  shows "takeWhile P xs = takeWhile P (take i xs)"
proof -
  have d: "drop i xs = xs ! i # drop (Suc i) xs"
    using assms(1) by (simp add: Cons_nth_drop_Suc)
  have "takeWhile P xs = takeWhile P (take i xs @ drop i xs)" by simp
  also have "\<dots> = takeWhile P (take i xs)"
    using assms(2) d
    by (auto simp: takeWhile_append intro: takeWhile_eq_all_conv [THEN iffD2, symmetric])
  finally show ?thesis .
qed

lemma lb_search_takeWhile:
  "first + len \<le> length bs \<Longrightarrow> sorted_wrt (\<lambda>a b. flt_less b v \<longrightarrow> flt_less a v) bs \<Longrightarrow>
   lb_search bs v first len = first + length (takeWhile (\<lambda>b. flt_less b v) (take len (drop first bs)))"
proof (induction bs v first len rule: lb_search.induct)
  case (1 bs v first len)
  let ?P = "\<lambda>b. flt_less b v"
  let ?seg = "take len (drop first bs)"
  show ?case
  proof (cases "len = 0")
    case True
    then show ?thesis by (simp add: lb_search.simps)
  next
    case False
    define half where "half = len div 2"
    have hl: "half < len" using False by (simp add: half_def)
    have sw: "sorted_wrt (\<lambda>a b. ?P b \<longrightarrow> ?P a) ?seg"
      using "1.prems"(2) by (simp add: sorted_wrt_take sorted_wrt_drop)
    have nth: "?seg ! half = bs ! (first + half)"
      using hl "1.prems"(1) by simp
    have lseg: "half < length ?seg" using hl "1.prems"(1) by simp
    show ?thesis
    proof (cases "?P (bs ! (first + half))")
      case True
      have IH: "lb_search bs v (Suc (first + half)) (len - half - 1) =
          Suc (first + half) + length (takeWhile ?P (take (len - half - 1) (drop (Suc (first + half)) bs)))"
        using "1.IH"(1) [OF False _ _ True] "1.prems" hl unfolding half_def by simp
      have "takeWhile ?P ?seg = take (Suc half) ?seg @ takeWhile ?P (drop (Suc half) ?seg)"
        using takeWhile_prefix_nth [OF sw lseg] True nth by simp
      moreover have "drop (Suc half) ?seg = take (len - half - 1) (drop (Suc (first + half)) bs)"
        by (simp add: drop_take add.commute)
      ultimately show ?thesis
        using False True IH lseg by (simp add: lb_search.simps [of bs v first len] half_def Let_def)
    next
      case False': False
      have IH: "lb_search bs v first half = first + length (takeWhile ?P (take half (drop first bs)))"
        using "1.IH"(2) [OF False _ _ False'] "1.prems" hl unfolding half_def by simp
      have "takeWhile ?P ?seg = takeWhile ?P (take half ?seg)"
        using takeWhile_stop_nth [OF lseg] False' nth by simp
      then show ?thesis
        using False False' IH hl by (simp add: lb_search.simps [of bs v first len] half_def Let_def min_def)
    qed
  qed
qed

text \<open>
  C9: \<open>std::lower_bound\<close>'s binary search returns the same index as the linear
  search for the first element that is not below the value, on every list whose
  elements below the value form a prefix (in particular on sorted borders).
\<close>

lemma lower_bound_eq_spec:
  "sorted_wrt (\<lambda>a b. flt_less b v \<longrightarrow> flt_less a v) bs \<Longrightarrow> lower_bound bs v = lower_bound_spec bs v"
  using lb_search_takeWhile [of 0 "length bs" bs v]
  by (simp add: lower_bound_def lower_bound_spec_def)


theorem lower_bound_eq_spec_witness:
  "sorted_wrt (\<lambda>a b. flt_less b 0.3 \<longrightarrow> flt_less a 0.3) [Fin 0.25, Fin 0.5, Fin 1] \<and>
   lower_bound [Fin 0.25, Fin 0.5, Fin 1] 0.3 = lower_bound_spec [Fin 0.25, Fin 0.5, Fin 1] 0.3"
proof -
  have h: "sorted_wrt (\<lambda>a b. flt_less b 0.3 \<longrightarrow> flt_less a 0.3) [Fin 0.25, Fin 0.5, Fin 1]"
    by simp
  show ?thesis using lower_bound_eq_spec [OF h] h by simp
qed

section \<open>The borders are the cumulative weights over the total\<close>

lemma foldl_plus_sum_list: "foldl (+) a xs = a + sum_list (xs :: real list)"
  by (induction xs arbitrary: a) (simp_all add: algebra_simps)

lemma length_partial_sum_from [simp]: "length (partial_sum_from a xs) = length xs"
  by (induction xs arbitrary: a) (simp_all add: Let_def)

lemma length_borders [simp]: "length (borders ws) = length ws"
  by (cases ws) (simp_all add: borders_def partial_sum_def Let_def)

lemma sum_list_map_divide: "sum_list (map (\<lambda>w. w / t) xs) = sum_list xs / (t :: real)"
  by (induction xs) (simp_all add: add_divide_distrib)

lemma partial_sum_from_Fin_nth:
  "i < length xs \<Longrightarrow>
   partial_sum_from (Fin a) (map Fin xs) ! i = Fin (a + sum_list (take (Suc i) xs))"
proof (induction xs arbitrary: a i)
  case Nil
  then show ?case by simp
next
  case (Cons x xs)
  then show ?case by (cases i) (simp_all add: Let_def add.assoc)
qed

lemma borders_nth:
  assumes "sum_list ws \<noteq> 0" "i < length ws"
  shows "borders ws ! i = Fin (sum_list (take (Suc i) ws) / sum_list ws)"
proof -
  obtain w ws' where ws: "ws = w # ws'" using assms(2) by (cases ws) auto
  let ?t = "sum_list ws"
  show ?thesis
  proof (cases i)
    case 0
    then show ?thesis
      using assms(1) by (simp add: borders_def foldl_plus_sum_list partial_sum_def fdiv_def ws Let_def)
  next
    case (Suc k)
    then have "k < length ws'" using assms(2) ws by simp
    then have "partial_sum_from (Fin (w / ?t)) (map Fin (map (\<lambda>w. w / ?t) ws')) ! k =
        Fin (w / ?t + sum_list (take (Suc k) ws') / ?t)"
      using partial_sum_from_Fin_nth [of k "map (\<lambda>w. w / ?t) ws'" "w / ?t"]
      by (simp add: take_map sum_list_map_divide o_def)
    moreover have "map (\<lambda>x. fdiv x ?t) ws' = map (\<lambda>x. Fin (x / ?t)) ws'"
      using assms(1) by (simp add: fdiv_def)
    ultimately show ?thesis
      using assms(1) Suc
      by (simp add: borders_def foldl_plus_sum_list partial_sum_def ws fdiv_def Let_def o_def add_divide_distrib)
  qed
qed

lemma partial_sum_from_NaN: "partial_sum_from NaN (replicate n NaN) = replicate n NaN"
  by (induction n) simp_all

lemma borders_all_zero:
  assumes "sum_list ws = 0" "\<forall>w \<in> set ws. 0 \<le> w"
  shows "borders ws = replicate (length ws) NaN"
proof -
  have "\<forall>w \<in> set ws. w = 0" using assms by (simp add: sum_list_nonneg_eq_0_iff)
  then have "map (\<lambda>w. fdiv w (sum_list ws)) ws = replicate (length ws) NaN"
    using assms(1) by (induction ws) (simp_all add: fdiv_def)
  then show ?thesis
    by (cases "length ws")
       (simp_all add: borders_def foldl_plus_sum_list partial_sum_def partial_sum_from_NaN)
qed

lemma sum_list_take_mono:
  "i \<le> j \<Longrightarrow> \<forall>w \<in> set ws. 0 \<le> w \<Longrightarrow> sum_list (take i ws) \<le> sum_list (take j (ws :: real list))"
proof (induction ws arbitrary: i j)
  case Nil
  then show ?case by simp
next
  case (Cons w ws)
  have "\<And>n. 0 \<le> sum_list (take n ws)"
    using Cons.prems(2) by (auto intro: sum_list_nonneg dest: in_set_takeD)
  with Cons show ?case
    by (cases i; cases j) auto
qed

lemma length_takeWhile_eq_iff:
  "length (takeWhile P xs) = i \<longleftrightarrow>
   i \<le> length xs \<and> (\<forall>j < i. P (xs ! j)) \<and> (i < length xs \<longrightarrow> \<not> P (xs ! i))"
proof (induction xs arbitrary: i)
  case Nil
  then show ?case by auto
next
  case (Cons x xs)
  show ?case
  proof (cases i)
    case 0
    then show ?thesis by auto
  next
    case (Suc k)
    then show ?thesis using Cons.IH [of k] by (auto simp: less_Suc_eq_0_disj nth_Cons')
  qed
qed


lemma borders_partitioned:
  assumes nonneg: "\<forall>w \<in> set ws. 0 \<le> w"
  shows "sorted_wrt (\<lambda>a b. flt_less b r \<longrightarrow> flt_less a r) (borders ws)"
proof (cases "sum_list ws = 0")
  case True
  then show ?thesis using borders_all_zero [OF True nonneg] by (simp add: sorted_wrt_iff_nth_less)
next
  case False
  have pos: "0 < sum_list ws"
    using False nonneg sum_list_nonneg [of ws] by fastforce
  show ?thesis
  proof (unfold sorted_wrt_iff_nth_less, intro allI impI)
    fix i j assume ij: "i < j" "j < length (borders ws)" "flt_less (borders ws ! j) r"
    have "sum_list (take (Suc i) ws) \<le> sum_list (take (Suc j) ws)"
      using ij(1) nonneg by (intro sum_list_take_mono) auto
    then have "sum_list (take (Suc i) ws) / sum_list ws \<le> sum_list (take (Suc j) ws) / sum_list ws"
      using pos by (simp add: divide_right_mono)
    with ij False show "flt_less (borders ws ! i) r"
      by (simp add: borders_nth)
  qed
qed

section \<open>Which entry a draw selects\<close>

lemma lower_bound_borders_iff:
  assumes nonneg: "\<forall>w \<in> set ws. 0 \<le> w" and pos: "0 < sum_list ws" and r: "r < 1"
  shows "lower_bound (borders ws) r = i \<longleftrightarrow>
           i < length ws \<and> (i = 0 \<or> sum_list (take i ws) < r * sum_list ws)
           \<and> r * sum_list ws \<le> sum_list (take (Suc i) ws)"
proof -
  let ?t = "sum_list ws" and ?c = "\<lambda>k. sum_list (take k ws)"
  have P: "flt_less (borders ws ! j) r \<longleftrightarrow> ?c (Suc j) < r * ?t" if "j < length ws" for j
    using that pos by (simp add: borders_nth pos_divide_less_eq)
  have lb: "lower_bound (borders ws) r = length (takeWhile (\<lambda>b. flt_less b r) (borders ws))"
    using lb_search_takeWhile [of 0 "length (borders ws)" "borders ws" r] borders_partitioned [OF nonneg]
    by (simp add: lower_bound_def)
  have mono: "?c a \<le> ?c b" if "a \<le> b" for a b
    using that nonneg by (rule sum_list_take_mono)
  have len: "0 < length ws" using pos by (cases ws) auto
  show ?thesis
  proof
    assume i: "lower_bound (borders ws) r = i"
    then have A: "i \<le> length ws" and B: "\<forall>j<i. flt_less (borders ws ! j) r"
      and C: "i < length ws \<longrightarrow> \<not> flt_less (borders ws ! i) r"
      using lb length_takeWhile_eq_iff [of "\<lambda>b. flt_less b r" "borders ws" i] by auto
    have "i \<noteq> length ws"
    proof
      assume "i = length ws"
      with B len have "?c (length ws) < r * ?t" using P [of "length ws - 1"] by simp
      with r pos show False by simp
    qed
    with A have il: "i < length ws" by simp
    moreover have "i = 0 \<or> ?c i < r * ?t"
      using B P [of "i - 1"] il by (cases i) auto
    moreover have "r * ?t \<le> ?c (Suc i)"
      using C P [of i] il by simp
    ultimately show "i < length ws \<and> (i = 0 \<or> ?c i < r * ?t) \<and> r * ?t \<le> ?c (Suc i)"
      by blast
  next
    assume H: "i < length ws \<and> (i = 0 \<or> ?c i < r * ?t) \<and> r * ?t \<le> ?c (Suc i)"
    have "\<forall>j<i. flt_less (borders ws ! j) r"
    proof (intro allI impI)
      fix j assume "j < i"
      then have "?c (Suc j) \<le> ?c i" and "j < length ws" using H mono [of "Suc j" i] by auto
      with H \<open>j < i\<close> show "flt_less (borders ws ! j) r" using P by force
    qed
    moreover have "\<not> flt_less (borders ws ! i) r" using H P [of i] by simp
    ultimately show "lower_bound (borders ws) r = i"
      using H lb length_takeWhile_eq_iff [of "\<lambda>b. flt_less b r" "borders ws" i] by simp
  qed
qed

lemma lower_bound_borders_all_zero:
  "ws \<noteq> [] \<Longrightarrow> sum_list ws = 0 \<Longrightarrow> \<forall>w \<in> set ws. 0 \<le> w \<Longrightarrow> lower_bound (borders ws) r = 0"
proof -
  assume a: "ws \<noteq> []" "sum_list ws = 0" "\<forall>w \<in> set ws. 0 \<le> w"
  have "lower_bound (borders ws) r = lower_bound_spec (borders ws) r"
    using lb_search_takeWhile [of 0 "length (borders ws)" "borders ws" r] borders_partitioned [OF a(3)]
    by (simp add: lower_bound_def lower_bound_spec_def)
  with a show ?thesis
    by (cases ws) (simp_all add: lower_bound_spec_def borders_all_zero)
qed

lemma lower_bound_borders_less:
  assumes "ws \<noteq> []" "\<forall>w \<in> set ws. 0 \<le> w" "r < 1"
  shows "lower_bound (borders ws) r < length ws"
proof (cases "sum_list ws = 0")
  case True
  then show ?thesis using assms lower_bound_borders_all_zero by simp
next
  case False
  then have "0 < sum_list ws" using assms(2) sum_list_nonneg [of ws] by fastforce
  then show ?thesis using lower_bound_borders_iff [OF assms(2) _ assms(3)] by blast
qed


section \<open>The draw loop returns\<close>

lemma sample_loop_ref:
  assumes "\<forall>g. lower_bound bs (fst (distr g)) < length bs"
  shows "sample_loop distr bs num g = Some (sample_ref distr bs num g)"
proof (induction num arbitrary: g)
  case 0
  then show ?case by (simp add: sample_loop.simps)
next
  case (Suc n)
  obtain r g' where d: "distr g = (r, g')" by fastforce
  with assms have "lower_bound bs r < length bs" by (metis fst_conv)
  with Suc d show ?case
    by (simp add: sample_loop.simps [of distr bs "Suc n" g] split: prod.split)
qed

lemma sample_ref_length: "length (fst (sample_ref distr bs num g)) = num"
proof (induction num arbitrary: g)
  case 0
  then show ?case by simp
next
  case (Suc n)
  obtain r g' where d: "distr g = (r, g')" by fastforce
  with Suc [of g'] show ?case by (auto split: prod.split)
qed

lemma sample_ref_state: "snd (sample_ref distr bs num g) = ((snd \<circ> distr) ^^ num) g"
proof (induction num arbitrary: g)
  case 0
  then show ?case by simp
next
  case (Suc n)
  obtain r g' where d: "distr g = (r, g')" by fastforce
  with Suc [of g'] show ?case by (auto split: prod.split simp del: funpow.simps simp: funpow_Suc_right)
qed

lemma sample_ref_bound:
  assumes "\<forall>g. lower_bound bs (fst (distr g)) < length bs"
  shows "\<forall>i \<in> set (fst (sample_ref distr bs num g)). i < length bs"
proof (induction num arbitrary: g)
  case 0
  then show ?case by simp
next
  case (Suc n)
  obtain r g' where d: "distr g = (r, g')" by fastforce
  with assms have "lower_bound bs r < length bs" by (metis fst_conv)
  with Suc [of g'] d show ?case by (auto split: prod.split)
qed

lemma sample_one:
  assumes "weights \<noteq> []" "\<forall>w \<in> set weights. 0 \<le> w" "fst (distr g) < 1"
  shows "sample distr g weights 1 =
           Some ([lower_bound (borders weights) (fst (distr g))], snd (distr g))"
proof -
  obtain r g' where d: "distr g = (r, g')" by fastforce
  have "lower_bound (borders weights) r < length (borders weights)"
    using lower_bound_borders_less [OF assms(1,2)] assms(3) d by simp
  then show ?thesis
    by (simp add: sample_def sample_loop.simps [of distr _ "Suc 0" g]
        sample_loop.simps [of distr _ 0 g'] d)
qed


text \<open>
  C10: with non-negative weights of positive total and a draw \<open>r < 1\<close>, one
  sample is the entry \<open>i\<close> whose cumulative interval
  \<open>(w\<^sub>0 + \<dots> + w\<^sub>i\<^sub>-\<^sub>1, w\<^sub>0 + \<dots> + w\<^sub>i]\<close> (scaled by the total) holds the
  draw: entry \<open>i\<close> is drawn with probability proportional to its weight.
\<close>

theorem sample_weighted:
  assumes "\<forall>w \<in> set ws. 0 \<le> w" "0 < sum_list ws" "\<forall>g. fst (distr g) < 1"
  shows "sample distr g ws 1 = Some ([i], snd (distr g)) \<longleftrightarrow>
           i < length ws \<and> (i = 0 \<or> sum_list (take i ws) < fst (distr g) * sum_list ws)
           \<and> fst (distr g) * sum_list ws \<le> sum_list (take (Suc i) ws)"
proof -
  have ne: "ws \<noteq> []" using assms(2) by auto
  have r: "fst (distr g) < 1" using assms(3) by blast
  have "sample distr g ws 1 = Some ([lower_bound (borders ws) (fst (distr g))], snd (distr g))"
    by (rule sample_one [where distr = distr and g = g, OF ne assms(1) r])
  then have "sample distr g ws 1 = Some ([i], snd (distr g)) \<longleftrightarrow>
      lower_bound (borders ws) (fst (distr g)) = i"
    by simp
  then show ?thesis
    using lower_bound_borders_iff [OF assms(1,2) r, of i] by simp
qed

theorem sample_weighted_witness:
  "0 < sum_list [1, 1, 2 :: real] \<and> (\<forall>g. fst (const_draw (1/2) g) < 1) \<and>
   sample (const_draw (1/2)) 0 [1, 1, 2] 1 = Some ([1], 1)"
proof -
  have h: "\<forall>w \<in> set [1, 1, 2]. (0::real) \<le> w" "0 < sum_list [1, 1, 2 :: real]"
    "\<forall>g. fst (const_draw (1/2) g) < 1"
    by (simp_all add: const_draw_def)
  have d: "fst (const_draw (1/2) (0::nat)) = (1/2)" "snd (const_draw (1/2) (0::nat)) = 1"
    by (simp_all add: const_draw_def)
  show ?thesis
    using h sample_weighted [OF h, of 0 1] by (simp add: d)
qed

text \<open>
  C11: the draw loop of \<open>rnd::sample\<close>, on any borders (however the float
  sums behind them were rounded): a draw past the last border, whose
  \<open>lower_bound\<close> is \<open>borders.end()\<close>, is discarded and the same item drawn
  again; when no draw falls past the last border, the loop returns after
  exactly \<open>num\<close> draws with \<open>num\<close> offsets, each an index of the borders.
\<close>

theorem sample_loop_draws:
  "(lower_bound bs (fst (distr g)) = length bs \<longrightarrow> 0 < num \<longrightarrow>
      sample_loop distr bs num g = sample_loop distr bs num (snd (distr g))) \<and>
   ((\<forall>g. lower_bound bs (fst (distr g)) < length bs) \<longrightarrow>
      (\<exists>is. sample_loop distr bs num g = Some (is, ((snd \<circ> distr) ^^ num) g)
           \<and> length is = num \<and> (\<forall>i \<in> set is. i < length bs)))"
proof (intro conjI impI)
  assume a: "lower_bound bs (fst (distr g)) = length bs" "0 < num"
  obtain r g' where d: "distr g = (r, g')" by fastforce
  show "sample_loop distr bs num g = sample_loop distr bs num (snd (distr g))"
    using a d by (simp add: sample_loop.simps [of distr bs num g] Let_def)
next
  assume lb: "\<forall>g. lower_bound bs (fst (distr g)) < length bs"
  let ?r = "sample_ref distr bs num g"
  have "sample_loop distr bs num g = Some (fst ?r, snd ?r)"
    using sample_loop_ref [OF lb] by simp
  moreover have "snd ?r = ((snd \<circ> distr) ^^ num) g" by (rule sample_ref_state)
  moreover have "length (fst ?r) = num" by (rule sample_ref_length)
  moreover have "\<forall>i \<in> set (fst ?r). i < length bs" using sample_ref_bound [OF lb] by simp
  ultimately show "\<exists>is. sample_loop distr bs num g = Some (is, ((snd \<circ> distr) ^^ num) g)
           \<and> length is = num \<and> (\<forall>i \<in> set is. i < length bs)" by auto
qed

theorem sample_loop_draws_witness:
  "lower_bound (borders [1, 1, 2]) (fst (const_draw 2 0)) = length (borders [1, 1, 2]) \<and>
   sample_loop (const_draw 2) (borders [1, 1, 2]) 1 0 = sample_loop (const_draw 2) (borders [1, 1, 2]) 1 1 \<and>
   (\<forall>g. lower_bound (borders [1, 1, 2]) (fst (const_draw (1/2) g)) < length (borders [1, 1, 2])) \<and>
   (\<exists>is. sample_loop (const_draw (1/2)) (borders [1, 1, 2]) 3 0 = Some (is, 3) \<and> length is = 3)"
proof -
  have b: "borders [1, 1, 2] = [Fin (1/4), Fin (1/2), Fin 1]"
    by (simp add: borders_def partial_sum_def fdiv_def)
  have r: "lower_bound (borders [1, 1, 2]) (fst (const_draw 2 0)) = length (borders [1, 1, 2])"
    by (simp add: b lower_bound_def lb_search.simps const_draw_def)
  have h: "\<forall>g. lower_bound (borders [1, 1, 2]) (fst (const_draw (1/2) g)) < length (borders [1, 1, 2])"
    by (simp add: b lower_bound_def lb_search.simps const_draw_def)
  have "((snd \<circ> const_draw (1/2)) ^^ 3) 0 = (3::nat)"
    by (simp add: const_draw_def numeral_3_eq_3)
  moreover note sample_loop_draws [of "borders [1, 1, 2]" "const_draw 2" 0 1]
  moreover note sample_loop_draws [of "borders [1, 1, 2]" "const_draw (1/2)" 0 3]
  ultimately show ?thesis using r h by (auto simp: const_draw_def)
qed

text \<open>
  C12: an entry of weight zero other than the first is never drawn, when the
  total weight is positive.
\<close>

lemma zero_weight_never_sampled:
  assumes "\<forall>w \<in> set ws. 0 \<le> w" "0 < sum_list ws" "r < 1"
    and "0 < i" "i < length ws" "ws ! i = 0"
  shows "lower_bound (borders ws) r \<noteq> i"
proof
  assume "lower_bound (borders ws) r = i"
  then have "sum_list (take i ws) < r * sum_list ws" "r * sum_list ws \<le> sum_list (take (Suc i) ws)"
    using lower_bound_borders_iff [OF assms(1-3)] assms(4) by auto
  moreover have "sum_list (take (Suc i) ws) = sum_list (take i ws)"
    using assms(5,6) by (simp add: take_Suc_conv_app_nth)
  ultimately show False by simp
qed

theorem zero_weight_never_sampled_witness:
  "0 < sum_list [1, 0, 1 :: real] \<and> (0.5::real) < 1 \<and> (0::nat) < 1 \<and> 1 < length [1, 0, 1 :: real] \<and> [1, 0, 1 :: real] ! 1 = 0 \<and>
   lower_bound (borders [1, 0, 1]) 0.5 \<noteq> 1"
proof -
  have h: "\<forall>w \<in> set [1, 0, 1]. (0::real) \<le> w" "0 < sum_list [1, 0, 1 :: real]" "(0.5::real) < 1"
    "(0::nat) < 1" "1 < length [1, 0, 1 :: real]" "[1, 0, 1 :: real] ! 1 = 0"
    by simp_all
  show ?thesis using h zero_weight_never_sampled [OF h] by blast
qed

text \<open>
  C13: a first entry of weight zero is drawn exactly when the draw is \<open>0.0\<close>,
  which \<open>std::uniform_real_distribution(0, 1)\<close> can return: zero-weight
  entries are not skipped.
\<close>

lemma zero_first_weight_sampled:
  assumes "\<forall>w \<in> set ws. 0 \<le> w" "0 < sum_list ws" "0 \<le> r" "r < 1" "ws ! 0 = 0"
  shows "lower_bound (borders ws) r = 0 \<longleftrightarrow> r = 0"
proof -
  have "ws \<noteq> []" using assms(2) by auto
  then have "sum_list (take (Suc 0) ws) = 0" using assms(5) by (cases ws) auto
  then show ?thesis
    using lower_bound_borders_iff [OF assms(1,2,4), of 0] assms(2,3) \<open>ws \<noteq> []\<close>
    by (auto simp: mult_le_0_iff)
qed

theorem zero_first_weight_sampled_witness:
  "0 < sum_list [0, 1 :: real] \<and> (0::real) \<le> 0 \<and>
   (0::real) < 1 \<and> [0, 1 :: real] ! 0 = 0 \<and> lower_bound (borders [0, 1]) 0 = 0"
proof -
  have h: "\<forall>w \<in> set [0, 1]. (0::real) \<le> w" "0 < sum_list [0, 1 :: real]" "(0::real) \<le> 0"
    "(0::real) < 1" "[0, 1 :: real] ! 0 = 0"
    by simp_all
  show ?thesis using h zero_first_weight_sampled [OF h] by blast
qed

text \<open>
  C14: when every weight is zero (the case the spec leaves open), the total is
  \<open>0.0f\<close>, every border is NaN, \<open>std::lower_bound\<close> stops at the first
  border, and every sample is the first entry, whatever the draws: the code's
  fallback is deterministic, not uniform.
\<close>

theorem sample_all_zero:
  assumes "ws \<noteq> []" "\<forall>w \<in> set ws. w = 0"
  shows "sample distr g ws num = Some (replicate num 0, ((snd \<circ> distr) ^^ num) g)"
proof -
  have z: "sum_list ws = 0" "\<forall>w \<in> set ws. 0 \<le> w"
    using assms(2) by (induction ws) auto
  have lb0: "\<And>r. lower_bound (borders ws) r = 0"
    using lower_bound_borders_all_zero [OF assms(1) z] by blast
  have lb: "\<forall>g. lower_bound (borders ws) (fst (distr g)) < length (borders ws)"
    using lb0 assms(1) by simp
  have "sample_ref distr (borders ws) num g = (replicate num 0, ((snd \<circ> distr) ^^ num) g)"
  proof (induction num arbitrary: g)
    case 0
    then show ?case by simp
  next
    case (Suc n)
    obtain r g' where d: "distr g = (r, g')" by fastforce
    with Suc [of g'] lb0 show ?case
      by (simp del: funpow.simps add: funpow_Suc_right)
  qed
  then show ?thesis using sample_loop_ref [OF lb] by (simp add: sample_def)
qed

theorem sample_all_zero_witness:
  "[0, 0 :: real] \<noteq> [] \<and> sample (const_draw 0.9) 0 [0, 0] 2 = Some ([0, 0], 2)"
proof -
  have h: "[0, 0 :: real] \<noteq> []" "\<forall>w \<in> set [0, 0 :: real]. w = 0" by simp_all
  have "((snd \<circ> const_draw 0.9) ^^ 2) 0 = (2::nat)"
    by (simp add: const_draw_def numeral_2_eq_2)
  then show ?thesis using h sample_all_zero [OF h, of "const_draw 0.9" 0 2]
    by (simp add: numeral_2_eq_2)
qed

end
