(* ===== verification/Utility.thy ===== *)
theory Utility
  imports Sampler
begin

text \<open>
  \<open>UtilitySelector\<close> of src/w3/behLibrary.cpp: a fixed list of entries
  (child node, scoring function, label); each tick it copies the list, scores the
  remaining entries against the blackboard, draws one with \<open>rnd::sample\<close>,
  updates it, and stops at the first result that is not a failure; a failed
  entry is erased from the copy and the draw repeats. The fields
  \<open>last_choice\<close> and \<open>stale\<close> implement the hysteresis: the previous choice
  gets a bonus \<open>chill = max(0, base_chill - stale)\<close> that decays by one each
  time the same node is chosen again.

  A child pointer \<open>BehNode*\<close> is an entry's identity (a \<open>nat\<close>) together
  with its update method (a runner); \<open>last_choice == node\<close> compares
  identities. The random engine is a parameter \<open>distr\<close> that maps the state to
  a draw and the next state, and \<open>bbv\<close> reads the blackboard the scoring
  functions see. The loop inherits the sampler's unbounded retry, so it is a
  \<open>partial_function\<close> in the option monad; \<open>util_loop_returns\<close> shows it
  returns whenever every draw is below 1.
\<close>

section \<open>State and operations\<close>

type_synonym ('e, 's, 'bb) uentry = "nat \<times> ('e, 's) runner \<times> ('bb \<Rightarrow> real) \<times> string"

record util_state =
  last_choice :: "nat option"
  stale :: real

definition base_chill :: real where
  "base_chill = 100"

definition chill :: "util_state \<Rightarrow> real" where
  "chill us = max 0 (base_chill - stale us)"

definition util_scores :: "'bb \<Rightarrow> util_state \<Rightarrow> ('e, 's, 'bb) uentry list \<Rightarrow> real list" where
  "util_scores bb us copy =
     map (\<lambda>(node, _, function, _).
            max (function bb + (if last_choice us = Some node then chill us else 0)) 0) copy"

partial_function (option) util_loop ::
  "('s \<Rightarrow> 'bb) \<Rightarrow> ('s \<Rightarrow> real \<times> 's) \<Rightarrow> ('e, 's, 'bb) uentry list \<Rightarrow> util_state \<Rightarrow> 's
   \<Rightarrow> ('e + beh_result \<times> util_state \<times> 's) option" where
  "util_loop bbv distr copy us s =
     (if copy = [] then Some (Inr (BEH_FAIL, us\<lparr>last_choice := None\<rparr>, s))
      else Option.bind (sample distr s (util_scores (bbv s) us copy) 1) (\<lambda>(smp, s1).
        let chosen = hd smp in
        case copy ! chosen of (chosen_node, upd, _, _) \<Rightarrow>
          (case upd s1 of
             Inl e \<Rightarrow> Some (Inl e)
           | Inr (res, s2) \<Rightarrow>
               if res \<noteq> BEH_FAIL then
                 Some (Inr (res,
                   if last_choice us \<noteq> Some chosen_node
                   then us\<lparr>stale := 0, last_choice := Some chosen_node\<rparr>
                   else us\<lparr>stale := stale us + 1\<rparr>, s2))
               else util_loop bbv distr (remove_nth chosen copy) us s2)))"

section \<open>Instrumentation and witnesses\<close>

text \<open>
  \<open>util_loop bbv distr utilityNodes us s\<close> is \<open>UtilitySelector::update\<close>:
  the working copy starts as the whole entry list, as \<open>auto copy =
  utilityNodes\<close> does.
\<close>

text \<open>
  \<open>counted i r\<close> runs \<open>r\<close> and counts the call in counter \<open>i\<close> kept beside
  the state; \<open>lift_distr\<close> runs the engine on the inner state. They measure how
  often each child is invoked in one tick. \<open>util_inv\<close> is the invariant of the
  selector's fields.
\<close>

definition counted :: "nat \<Rightarrow> ('e, 's) runner \<Rightarrow> ('e, 's \<times> (nat \<Rightarrow> nat)) runner" where
  "counted i r = (\<lambda>(s, c). case r s of Inl e \<Rightarrow> Inl e | Inr (res, s') \<Rightarrow> Inr (res, (s', c(i := Suc (c i)))))"

definition counted_entries ::
  "('e, 's, 'bb) uentry list \<Rightarrow> ('e, 's \<times> (nat \<Rightarrow> nat), 'bb) uentry list" where
  "counted_entries copy = map (\<lambda>(n, r, f, l). (n, counted n r, f, l)) copy"

definition lift_distr :: "('s \<Rightarrow> real \<times> 's) \<Rightarrow> 's \<times> 'c \<Rightarrow> real \<times> ('s \<times> 'c)" where
  "lift_distr distr = (\<lambda>(s, c). case distr s of (r, s') \<Rightarrow> (r, (s', c)))"

definition util_inv :: "nat set \<Rightarrow> util_state \<Rightarrow> bool" where
  "util_inv ids us \<longleftrightarrow> 0 \<le> stale us \<and> (\<forall>n. last_choice us = Some n \<longrightarrow> n \<in> ids)"

section \<open>One round of the loop\<close>

lemma length_util_scores [simp]: "length (util_scores bb us copy) = length copy"
  by (simp add: util_scores_def)

lemma util_scores_nonneg: "\<forall>w \<in> set (util_scores bb us copy). 0 \<le> w"
  by (auto simp: util_scores_def)

lemma util_scores_sample:
  assumes "copy \<noteq> []" "fst (distr s) < 1"
  shows "sample distr s (util_scores bb us copy) 1 =
           Some ([lower_bound (borders (util_scores bb us copy)) (fst (distr s))], snd (distr s))
         \<and> lower_bound (borders (util_scores bb us copy)) (fst (distr s)) < length copy"
proof -
  have ne: "util_scores bb us copy \<noteq> []" using assms(1) by (simp add: util_scores_def)
  show ?thesis
    using sample_one [where distr = distr and g = s, OF ne util_scores_nonneg assms(2)]
      lower_bound_borders_less [OF ne util_scores_nonneg, of "fst (distr s)"] assms(2)
    by simp
qed

lemma util_loop_step:
  assumes "copy \<noteq> []" "fst (distr s) < 1"
    and k_def: "k = lower_bound (borders (util_scores (bbv s) us copy)) (fst (distr s))"
    and entry: "copy ! k = (n, upd, f, l)"
  shows "k < length copy \<and>
    util_loop bbv distr copy us s =
        (case upd (snd (distr s)) of
           Inl e \<Rightarrow> Some (Inl e)
         | Inr (res, s2) \<Rightarrow>
             if res \<noteq> BEH_FAIL then
               Some (Inr (res,
                 if last_choice us \<noteq> Some n
                 then us\<lparr>stale := 0, last_choice := Some n\<rparr>
                 else us\<lparr>stale := stale us + 1\<rparr>, s2))
             else util_loop bbv distr (remove_nth k copy) us s2)"
  using util_scores_sample [where distr = distr and s = s and bb = "bbv s" and us = us, OF assms(1,2)] assms(1)
  by (simp add: util_loop.simps [of bbv distr copy us s] k_def [symmetric] entry Let_def
      split: sum.split)

lemma util_loop_returns:
  assumes "\<forall>g. fst (distr g) < 1"
  shows "util_loop bbv distr copy us s \<noteq> None"
proof (induction "length copy" arbitrary: copy s rule: less_induct)
  case less
  show ?case
  proof (cases "copy = []")
    case True
    then show ?thesis by (simp add: util_loop.simps)
  next
    case False
    define k where "k = lower_bound (borders (util_scores (bbv s) us copy)) (fst (distr s))"
    obtain n upd f l where entry: "copy ! k = (n, upd, f, l)" by (cases "copy ! k") auto
    note step = util_loop_step [where distr = distr and bbv = bbv and s = s and us = us, OF False assms [rule_format] k_def entry]
    have "length (remove_nth k copy) < length copy"
      using step False by (simp add: length_remove_nth)
    then have "\<And>s2. util_loop bbv distr (remove_nth k copy) us s2 \<noteq> None"
      by (rule less)
    then show ?thesis
      using step by (auto split: sum.split)
  qed
qed


section \<open>Result and hysteresis\<close>

lemma util_loop_result:
  assumes draws: "\<forall>g. fst (distr g) < 1"
  shows "util_loop bbv distr copy us s = Some (Inr (res, us', s')) \<Longrightarrow>
    (res = BEH_FAIL \<and> us' = us\<lparr>last_choice := None\<rparr>) \<or>
    (res \<noteq> BEH_FAIL \<and> (\<exists>n \<in> fst ` set copy.
       us' = (if last_choice us = Some n then us\<lparr>stale := stale us + 1\<rparr>
              else us\<lparr>stale := 0, last_choice := Some n\<rparr>)))"
proof (induction "length copy" arbitrary: copy s rule: less_induct)
  case less
  show ?case
  proof (cases "copy = []")
    case True
    then show ?thesis using less.prems by (simp add: util_loop.simps)
  next
    case False
    define k where "k = lower_bound (borders (util_scores (bbv s) us copy)) (fst (distr s))"
    obtain n upd f l where entry: "copy ! k = (n, upd, f, l)" by (cases "copy ! k") auto
    note step = util_loop_step [where distr = distr and bbv = bbv and s = s and us = us, OF False draws [rule_format] k_def entry]
    have n_in: "n \<in> fst ` set copy"
      using step entry by (blast intro: nth_fst_in)
    have shorter: "length (remove_nth k copy) < length copy"
      using step False by (simp add: length_remove_nth)
    have sub: "fst ` set (remove_nth k copy) \<subseteq> fst ` set copy"
      by (rule image_mono [OF set_remove_nth_subset])
    show ?thesis
    proof (cases "upd (snd (distr s))")
      case (Inl e)
      then show ?thesis using step less.prems by simp
    next
      case (Inr v)
      obtain r2 s2 where v: "v = (r2, s2)" by fastforce
      show ?thesis
      proof (cases "r2 = BEH_FAIL")
        case True
        with step less.prems Inr v have "util_loop bbv distr (remove_nth k copy) us s2 = Some (Inr (res, us', s'))"
          by simp
        from less(1) [OF shorter this] sub show ?thesis by blast
      next
        case False
        with step less.prems Inr v n_in show ?thesis by auto
      qed
    qed
  qed
qed

section \<open>Each entry is invoked at most once per tick\<close>

lemma util_scores_counted [simp]:
  "util_scores bb us (counted_entries copy) = util_scores bb us copy"
  by (simp add: util_scores_def counted_entries_def split_def o_def)

lemma counted_entries_nth:
  "k < length copy \<Longrightarrow> copy ! k = (n, upd, f, l) \<Longrightarrow> counted_entries copy ! k = (n, counted n upd, f, l)"
  by (simp add: counted_entries_def)

lemma counted_entries_remove_nth:
  "counted_entries (remove_nth k copy) = remove_nth k (counted_entries copy)"
  by (simp add: counted_entries_def map_remove_nth)

text \<open>One step of the loop over counted entries: the drawn entry is a child of
  the copy, its counter is bumped, and erasing it leaves no entry with its
  number.\<close>

lemma util_loop_counted_step:
  assumes draws: "\<forall>g. fst (distr g) < 1" and ne: "copy \<noteq> []" and dist: "distinct (map fst copy)"
    and d: "distr s = (r, s1)"
    and k_def: "k = lower_bound (borders (util_scores (bbv s) us copy)) r"
    and entry: "copy ! k = (n, upd, f, l)"
  shows "n \<in> fst ` set copy" "n \<notin> fst ` set (remove_nth k copy)"
    "length (remove_nth k copy) < length copy"
    "util_loop (bbv \<circ> fst) (lift_distr distr) (counted_entries copy) us (s, c) =
        (case upd s1 of
           Inl e \<Rightarrow> Some (Inl e)
         | Inr (res, s2) \<Rightarrow>
             if res \<noteq> BEH_FAIL then
               Some (Inr (res,
                 if last_choice us \<noteq> Some n
                 then us\<lparr>stale := 0, last_choice := Some n\<rparr>
                 else us\<lparr>stale := stale us + 1\<rparr>, (s2, c(n := Suc (c n)))))
             else util_loop (bbv \<circ> fst) (lift_distr distr) (counted_entries (remove_nth k copy)) us
                    (s2, c(n := Suc (c n))))" (is "_ = ?R")
proof -
  have draws': "\<forall>g. fst (lift_distr distr g) < 1"
    using draws by (auto simp: lift_distr_def split: prod.split) (metis fst_conv)
  have ne': "counted_entries copy \<noteq> []" using ne by (simp add: counted_entries_def)
  have k': "k = lower_bound (borders (util_scores ((bbv \<circ> fst) (s, c)) us (counted_entries copy)))
                  (fst (lift_distr distr (s, c)))"
    using d by (simp add: k_def lift_distr_def)
  have kl: "k < length copy"
    using util_scores_sample [where distr = distr and s = s and bb = "bbv s" and us = us, OF ne draws [rule_format]] d k_def
    by simp
  have n_notin: "n \<notin> fst ` set (remove_nth k copy)"
  proof -
    have "map fst copy ! k = n" using kl entry by simp
    moreover have "map fst copy ! k \<notin> set (remove_nth k (map fst copy))"
      using remove_nth_notin [OF dist] kl by simp
    ultimately have "n \<notin> set (remove_nth k (map fst copy))" by simp
    then show ?thesis by (simp add: map_remove_nth [symmetric])
  qed
  have cs: "counted n upd (snd (lift_distr distr (s, c))) =
      (case upd s1 of Inl e \<Rightarrow> Inl e | Inr (res, s') \<Rightarrow> Inr (res, (s', c(n := Suc (c n)))))"
    using d by (simp add: lift_distr_def counted_def)
  note step = util_loop_step [where distr = "lift_distr distr" and bbv = "bbv \<circ> fst" and s = "(s, c)" and us = us,
      OF ne' draws' [rule_format] k' counted_entries_nth [OF kl entry]]
  show "n \<in> fst ` set copy" using kl entry by (rule nth_fst_in)
  show "length (remove_nth k copy) < length copy" using kl ne by (simp add: length_remove_nth)
  show "n \<notin> fst ` set (remove_nth k copy)" by (rule n_notin)
  show "util_loop (bbv \<circ> fst) (lift_distr distr) (counted_entries copy) us (s, c) = ?R"
    using step unfolding cs by (simp add: counted_entries_remove_nth split: sum.split)
qed

text \<open>
  C16: within one tick every child is invoked at most once: a child that fails
  is erased from the working copy and never drawn again.
\<close>

lemma util_loop_counted:
  assumes draws: "\<forall>g. fst (distr g) < 1"
  shows "distinct (map fst copy) \<Longrightarrow>
    util_loop (bbv \<circ> fst) (lift_distr distr) (counted_entries copy) us (s, c) = Some (Inr (res, us', (s', c'))) \<Longrightarrow>
    c' i \<le> c i + (if i \<in> fst ` set copy then 1 else 0)"
proof (induction "length copy" arbitrary: copy s c rule: less_induct)
  case less
  show ?case
  proof (cases "copy = []")
    case True
    then show ?thesis using less.prems by (simp add: util_loop.simps counted_entries_def)
  next
    case False
    obtain r s1 where d: "distr s = (r, s1)" by fastforce
    define k where "k = lower_bound (borders (util_scores (bbv s) us copy)) r"
    obtain n upd f l where entry: "copy ! k = (n, upd, f, l)" by (cases "copy ! k") auto
    note step = util_loop_counted_step [where bbv = bbv and s = s and us = us, OF draws False less.prems(1) d k_def entry]
    note eq = step(4) [where c = c]
    have sub: "fst ` set (remove_nth k copy) \<subseteq> fst ` set copy"
      by (rule image_mono [OF set_remove_nth_subset])
    show ?thesis
    proof (cases "upd s1")
      case (Inl e)
      then show ?thesis using eq less.prems(2) by simp
    next
      case (Inr v)
      obtain r2 s2 where v: "v = (r2, s2)" by fastforce
      let ?c1 = "c(n := Suc (c n))"
      show ?thesis
      proof (cases "r2 = BEH_FAIL")
        case True
        with eq less.prems(2) Inr v
        have "util_loop (bbv \<circ> fst) (lift_distr distr) (counted_entries (remove_nth k copy)) us (s2, ?c1)
              = Some (Inr (res, us', (s', c')))"
          by simp
        from less(1) [OF step(3) _ this] less.prems(1)
        have "c' i \<le> ?c1 i + (if i \<in> fst ` set (remove_nth k copy) then 1 else 0)"
          by (simp add: distinct_remove_nth map_remove_nth)
        then show ?thesis using step(1,2) sub by (auto split: if_splits)
      next
        case False
        with eq step(1) less.prems(2) Inr v show ?thesis by auto
      qed
    qed
  qed
qed


theorem util_loop_counted_witness:
  "\<exists>us' s' c'. util_loop ((\<lambda>_. ()) \<circ> fst) (lift_distr (const_draw (1/2)))
       (counted_entries ([(0, \<lambda>s. Inr (BEH_FAIL, s), \<lambda>_. 1, ''flee''), (1, \<lambda>s. Inr (BEH_SUCCESS, s), \<lambda>_. 0, ''patrol'')] :: (unit, nat, unit) uentry list)) \<lparr>last_choice = None, stale = 0\<rparr> (0, \<lambda>_. 0)
     = Some (Inr (BEH_SUCCESS, us', (s', c'))) \<and> c' 0 \<le> 1 \<and> c' 1 \<le> 1"
proof -
  have h: "\<forall>g. fst (const_draw (1/2) g) < 1" by (simp add: const_draw_def)
  have d: "distinct (map fst ([(0, \<lambda>s. Inr (BEH_FAIL, s), \<lambda>_. 1, ''flee''), (1, \<lambda>s. Inr (BEH_SUCCESS, s), \<lambda>_. 0, ''patrol'')] :: (unit, nat, unit) uentry list))" by simp
  have r: "util_loop ((\<lambda>_. ()) \<circ> fst) (lift_distr (const_draw (1/2)))
       (counted_entries ([(0, \<lambda>s. Inr (BEH_FAIL, s), \<lambda>_. 1, ''flee''), (1, \<lambda>s. Inr (BEH_SUCCESS, s), \<lambda>_. 0, ''patrol'')] :: (unit, nat, unit) uentry list)) \<lparr>last_choice = None, stale = 0\<rparr> (0, \<lambda>_. 0)
     = Some (Inr (BEH_SUCCESS, \<lparr>last_choice = Some 1, stale = 0\<rparr>, (2, (\<lambda>_. 0)(0 := 1, 1 := 1))))"
    by (simp add: util_loop.simps util_scores_def chill_def base_chill_def sample_def
      sample_loop.simps borders_def partial_sum_def fdiv_def lower_bound_def lb_search.simps
      const_draw_def counted_entries_def counted_def lift_distr_def)
  have "((\<lambda>_. 0)(0 := 1, 1 := 1) :: nat \<Rightarrow> nat) 0 \<le> 0 + 1"
    using util_loop_counted [OF h d r, of 0] by simp
  moreover have "((\<lambda>_. 0)(0 := 1, 1 := 1) :: nat \<Rightarrow> nat) 1 \<le> 0 + 1"
    using util_loop_counted [OF h d r, of 1] by simp
  ultimately show ?thesis using r by auto
qed

section \<open>The chill bonus and the invariant\<close>

lemma chill_repeat: "chill (us\<lparr>stale := stale us + 1\<rparr>) = max 0 (chill us - 1)"
  by (simp add: chill_def base_chill_def)

lemma chill_switch: "chill (us\<lparr>stale := 0, last_choice := Some n\<rparr>) = base_chill"
  by (simp add: chill_def base_chill_def)

text \<open>
  C15: \<open>UtilitySelector::update\<close> returns whenever every draw of the engine is
  below 1, as \<open>std::uniform_real_distribution(0, 1)\<close> guarantees: the sampler
  never retries and each failed child is erased from the copy.
\<close>

theorem util_loop_terminates:
  assumes "\<forall>g. fst (distr g) < 1"
  shows "\<exists>r. util_loop bbv distr utilityNodes us s = Some r"
  using util_loop_returns [OF assms] by blast

theorem util_loop_terminates_witness:
  "(\<forall>g. fst (const_draw (1/2) g) < 1) \<and>
   (\<exists>r. util_loop (\<lambda>_. ()) (const_draw (1/2)) ([(0, \<lambda>s. Inr (BEH_FAIL, s), \<lambda>_. 1, ''flee''), (1, \<lambda>s. Inr (BEH_SUCCESS, s), \<lambda>_. 0, ''patrol'')] :: (unit, nat, unit) uentry list)
          \<lparr>last_choice = None, stale = 0\<rparr> 0 = Some r)"
proof -
  have h: "\<forall>g. fst (const_draw (1/2) g) < 1" by (simp add: const_draw_def)
  show ?thesis using h util_loop_terminates [OF h] by blast
qed

text \<open>
  C17: the selector's fields stay well formed: \<open>stale\<close> is never negative and
  \<open>last_choice\<close> is always one of the selector's own children (or null).
\<close>

theorem util_loop_inv:
  assumes "\<forall>g. fst (distr g) < 1" "util_inv (fst ` set utilityNodes) us"
    and "util_loop bbv distr utilityNodes us s = Some (Inr (res, us', s'))"
  shows "util_inv (fst ` set utilityNodes) us'"
  using util_loop_result [OF assms(1) assms(3)] assms(2)
  by (auto simp: util_inv_def split: if_splits intro: rev_image_eqI)

theorem util_loop_inv_witness:
  "util_loop (\<lambda>_. ()) (const_draw (1/2)) ([(0, \<lambda>s. Inr (BEH_FAIL, s), \<lambda>_. 1, ''flee''), (1, \<lambda>s. Inr (BEH_SUCCESS, s), \<lambda>_. 0, ''patrol'')] :: (unit, nat, unit) uentry list)
     \<lparr>last_choice = None, stale = 0\<rparr> 0 = Some (Inr (BEH_SUCCESS, \<lparr>last_choice = Some 1, stale = 0\<rparr>, 2)) \<and>
   util_inv {0, 1} \<lparr>last_choice = Some 1, stale = 0\<rparr>"
proof -
  have h: "\<forall>g. fst (const_draw (1/2) g) < 1" by (simp add: const_draw_def)
  have i: "util_inv (fst ` set ([(0, \<lambda>s. Inr (BEH_FAIL, s), \<lambda>_. 1, ''flee''), (1, \<lambda>s. Inr (BEH_SUCCESS, s), \<lambda>_. 0, ''patrol'')] :: (unit, nat, unit) uentry list)) \<lparr>last_choice = None, stale = 0\<rparr>"
    by (simp add: util_inv_def)
  have r: "util_loop (\<lambda>_. ()) (const_draw (1/2)) ([(0, \<lambda>s. Inr (BEH_FAIL, s), \<lambda>_. 1, ''flee''), (1, \<lambda>s. Inr (BEH_SUCCESS, s), \<lambda>_. 0, ''patrol'')] :: (unit, nat, unit) uentry list)
     \<lparr>last_choice = None, stale = 0\<rparr> 0 = Some (Inr (BEH_SUCCESS, \<lparr>last_choice = Some 1, stale = 0\<rparr>, 2))"
    by (simp add: util_loop.simps util_scores_def chill_def base_chill_def sample_def
      sample_loop.simps borders_def partial_sum_def fdiv_def lower_bound_def lb_search.simps
      const_draw_def)
  show ?thesis using r util_loop_inv [OF h i r] by (simp add: insert_commute)
qed

text \<open>
  C18: hysteresis. When a child succeeds or runs, it becomes \<open>last_choice\<close>;
  if it was already the last choice, \<open>stale\<close> grows by one and the chill bonus
  drops by one (down to 0 after \<open>base_chill\<close> repeats); if it is a new choice,
  \<open>stale\<close> is reset to 0 and the bonus is back at \<open>base_chill\<close>.
\<close>

theorem util_hysteresis:
  assumes "\<forall>g. fst (distr g) < 1"
    and "util_loop bbv distr utilityNodes us s = Some (Inr (res, us', s'))" "res \<noteq> BEH_FAIL"
  shows "\<exists>n \<in> fst ` set utilityNodes. last_choice us' = Some n \<and>
           (if last_choice us = Some n
            then stale us' = stale us + 1 \<and> chill us' = max 0 (chill us - 1)
            else stale us' = 0 \<and> chill us' = base_chill)"
proof -
  obtain n where n: "n \<in> fst ` set utilityNodes"
    and us': "us' = (if last_choice us = Some n then us\<lparr>stale := stale us + 1\<rparr>
                     else us\<lparr>stale := 0, last_choice := Some n\<rparr>)"
    using util_loop_result [OF assms(1,2)] assms(3) by blast
  show ?thesis
  proof (cases "last_choice us = Some n")
    case True
    then show ?thesis using n us' chill_repeat [of us] by auto
  next
    case False
    then show ?thesis using n us' chill_switch [where us = us and n = n] by auto
  qed
qed

theorem util_hysteresis_witness:
  "util_loop (\<lambda>_. ()) (const_draw (1/2)) ([(0, \<lambda>s. Inr (BEH_FAIL, s), \<lambda>_. 1, ''flee''), (1, \<lambda>s. Inr (BEH_SUCCESS, s), \<lambda>_. 0, ''patrol'')] :: (unit, nat, unit) uentry list)
     \<lparr>last_choice = None, stale = 0\<rparr> 0 = Some (Inr (BEH_SUCCESS, \<lparr>last_choice = Some 1, stale = 0\<rparr>, 2)) \<and>
   stale \<lparr>last_choice = Some (1::nat), stale = 0\<rparr> = 0 \<and>
   chill \<lparr>last_choice = Some 1, stale = 0\<rparr> = base_chill"
proof -
  have h: "\<forall>g. fst (const_draw (1/2) g) < 1" by (simp add: const_draw_def)
  have r: "util_loop (\<lambda>_. ()) (const_draw (1/2)) ([(0, \<lambda>s. Inr (BEH_FAIL, s), \<lambda>_. 1, ''flee''), (1, \<lambda>s. Inr (BEH_SUCCESS, s), \<lambda>_. 0, ''patrol'')] :: (unit, nat, unit) uentry list)
     \<lparr>last_choice = None, stale = 0\<rparr> 0 = Some (Inr (BEH_SUCCESS, \<lparr>last_choice = Some 1, stale = 0\<rparr>, 2))"
    by (simp add: util_loop.simps util_scores_def chill_def base_chill_def sample_def
      sample_loop.simps borders_def partial_sum_def fdiv_def lower_bound_def lb_search.simps
      const_draw_def)
  show ?thesis using r util_hysteresis [OF h r] by auto
qed

text \<open>
  C19: when every child fails, the selector fails and forgets its last choice
  (\<open>last_choice = nullptr\<close>) but keeps its \<open>stale\<close> counter.
\<close>

theorem util_all_fail:
  assumes "\<forall>g. fst (distr g) < 1"
    and "util_loop bbv distr utilityNodes us s = Some (Inr (BEH_FAIL, us', s'))"
  shows "last_choice us' = None \<and> stale us' = stale us"
  using util_loop_result [OF assms] by simp

theorem util_all_fail_witness:
  "util_loop (\<lambda>_. ()) (const_draw (1/2))
     ([(0, \<lambda>s. Inr (BEH_FAIL, s), \<lambda>_. 1, ''flee'')] :: (unit, nat, unit) uentry list)
     \<lparr>last_choice = Some 0, stale = 7\<rparr> 0 = Some (Inr (BEH_FAIL, \<lparr>last_choice = None, stale = 7\<rparr>, 1))
   \<and> last_choice \<lparr>last_choice = None, stale = 7 :: real\<rparr> = None"
proof -
  have h: "\<forall>g. fst (const_draw (1/2) g) < 1" by (simp add: const_draw_def)
  have r: "util_loop (\<lambda>_. ()) (const_draw (1/2))
     ([(0, \<lambda>s. Inr (BEH_FAIL, s), \<lambda>_. 1, ''flee'')] :: (unit, nat, unit) uentry list)
     \<lparr>last_choice = Some 0, stale = 7\<rparr> 0 = Some (Inr (BEH_FAIL, \<lparr>last_choice = None, stale = 7\<rparr>, 1))"
    by (simp add: util_loop.simps util_scores_def chill_def base_chill_def sample_def
      sample_loop.simps borders_def partial_sum_def fdiv_def lower_bound_def lb_search.simps
      const_draw_def)
  show ?thesis using r util_all_fail [OF h r] by simp
qed

text \<open>
  C20: an entry whose score is zero is still selected: whatever the draw, when
  every remaining entry scores zero (as after the entries with a positive score
  have failed and been erased), the selector runs the first remaining entry,
  returns its result when it does not fail and erases it when it fails.
\<close>

theorem util_zero_scores_first:
  assumes "copy = (n, upd, f, l) # rest" "\<forall>w \<in> set (util_scores (bbv s) us copy). w = 0"
  shows "util_loop bbv distr copy us s =
     (case upd (snd (distr s)) of
        Inl e \<Rightarrow> Some (Inl e)
      | Inr (res, s2) \<Rightarrow>
          if res \<noteq> BEH_FAIL then
            Some (Inr (res,
              if last_choice us \<noteq> Some n then us\<lparr>stale := 0, last_choice := Some n\<rparr>
              else us\<lparr>stale := stale us + 1\<rparr>, s2))
          else util_loop bbv distr rest us s2)"
proof -
  let ?ws = "util_scores (bbv s) us copy"
  have ne: "?ws \<noteq> []" using assms(1) by (simp add: util_scores_def)
  have zs: "sum_list xs = 0 \<and> (\<forall>w \<in> set xs. 0 \<le> w)" if "\<forall>w \<in> set xs. w = (0::real)" for xs
    using that by (induction xs) auto
  have z: "sum_list ?ws = 0" "\<forall>w \<in> set ?ws. 0 \<le> w" using zs [OF assms(2)] by simp_all
  obtain r g' where d: "distr s = (r, g')" by fastforce
  have lb: "lower_bound (borders ?ws) r = 0" by (rule lower_bound_borders_all_zero [OF ne z])
  define bs where "bs = borders ?ws"
  have "length bs \<noteq> 0" using assms(1) by (simp add: bs_def)
  then have "sample_loop distr bs (Suc 0) s = Some ([0], g')"
    using lb d by (simp add: bs_def [symmetric] sample_loop.simps [of distr bs "Suc 0" s]
        sample_loop.simps [of distr bs 0 g'])
  then have smp: "sample distr s ?ws 1 = Some ([0], g')" by (simp add: sample_def bs_def)
  show ?thesis
    unfolding util_loop.simps [of bbv distr copy us s]
    using smp d assms(1) by (simp split: sum.split)
qed

theorem util_zero_scores_first_witness:
  "util_scores () \<lparr>last_choice = None, stale = 0\<rparr>
      ([(1, \<lambda>s. Inr (BEH_SUCCESS, s), \<lambda>_. 0, ''patrol'')] :: (unit, nat, unit) uentry list) = [0] \<and>
   util_loop (\<lambda>_. ()) (const_draw 0.9)
      ([(1, \<lambda>s. Inr (BEH_SUCCESS, s), \<lambda>_. 0, ''patrol'')] :: (unit, nat, unit) uentry list)
      \<lparr>last_choice = None, stale = 0\<rparr> 0
    = Some (Inr (BEH_SUCCESS, \<lparr>last_choice = Some 1, stale = 0\<rparr>, 1))"
proof -
  have h: "\<forall>w \<in> set (util_scores ((\<lambda>_. ()) (0::nat)) \<lparr>last_choice = None, stale = 0\<rparr>
      ([(1, \<lambda>s. Inr (BEH_SUCCESS, s), \<lambda>_. 0, ''patrol'')] :: (unit, nat, unit) uentry list)). w = 0"
    by (simp add: util_scores_def)
  show ?thesis
    using util_zero_scores_first [OF refl h, of "const_draw 0.9"]
    by (simp add: util_scores_def const_draw_def)
qed

section \<open>Invariants of the children carry over to the selector\<close>

text \<open>When every draw from a state satisfying \<open>P\<close> is below 1 and the engine keeps
  \<open>P\<close>, the selector returns, and it keeps \<open>P\<close> when every child does.\<close>

lemma util_loop_keeps:
  assumes draws: "\<forall>s. P s \<longrightarrow> fst (distr s) < 1"
    and eng: "\<forall>s. P s \<longrightarrow> P (snd (distr s))"
  shows "\<forall>x \<in> set copy. keeps P Q (fst (snd x)) \<Longrightarrow> P s \<Longrightarrow>
    \<exists>res. util_loop bbv distr copy us s = Some res \<and>
          (case res of Inl err \<Rightarrow> Q err | Inr (_, _, s') \<Rightarrow> P s')"
proof (induction "length copy" arbitrary: copy s rule: less_induct)
  case less
  show ?case
  proof (cases "copy = []")
    case True
    then show ?thesis using less.prems by (simp add: util_loop.simps)
  next
    case False
    define k where "k = lower_bound (borders (util_scores (bbv s) us copy)) (fst (distr s))"
    obtain n upd f l where entry: "copy ! k = (n, upd, f, l)" by (cases "copy ! k") auto
    have d: "fst (distr s) < 1" using draws less.prems(2) by blast
    note step = util_loop_step [where distr = distr and bbv = bbv and s = s and us = us,
        OF False d k_def entry]
    have kl: "k < length copy" using step by blast
    have pu: "keeps P Q upd" using less.prems(1) nth_mem [OF kl] entry by force
    have p1: "P (snd (distr s))" using eng less.prems(2) by blast
    show ?thesis
    proof (cases "upd (snd (distr s))")
      case (Inl e)
      then show ?thesis using step keeps_Inl [OF pu p1 Inl] by simp
    next
      case (Inr v)
      obtain r2 s2 where v: "v = (r2, s2)" by (cases v)
      have p2: "P s2" using keeps_Inr [OF pu p1] Inr v by simp
      show ?thesis
      proof (cases "r2 = BEH_FAIL")
        case True
        have shorter: "length (remove_nth k copy) < length copy"
          using kl False by (simp add: length_remove_nth)
        have kids: "\<forall>x \<in> set (remove_nth k copy). keeps P Q (fst (snd x))"
        proof
          fix x assume "x \<in> set (remove_nth k copy)"
          then have "x \<in> set copy" by (rule subsetD [OF set_remove_nth_subset])
          then show "keeps P Q (fst (snd x))" using less.prems(1) by blast
        qed
        show ?thesis using less(1) [OF shorter kids p2] step Inr v True by simp
      next
        case False
        then show ?thesis using step Inr v p2 by simp
      qed
    qed
  qed
qed

end
