(* ===== verification/Blackboard.thy ===== *)
theory Blackboard
  imports BT_Prelude
begin

text \<open>
  The blackboard of an entity: typed values in numbered slots, and the name table
  that gives each name its slot. \<open>blackboard.h\<close> is not among the sources, so this
  theory follows the spec (sections 3 and 4.8): the first registration of a name
  fixes its slot and its type for the whole run, a second registration of the same
  name returns the same slot whatever type it asks for, slots are never reused,
  every entity has its own store, and reading a slot with a type other than the
  registered one fails fast. The value types are those the sources store: entity
  handles, floats, positions and flags.
\<close>

section \<open>Types, values and the stores\<close>

datatype bb_type = TEntity | TFloat | TPosition | TBool

datatype bb_value = VEntity eid | VFloat real | VPosition "int \<times> int" | VBool bool

datatype bb_error = BadType | Unset | Unregistered

fun type_of_value :: "bb_value \<Rightarrow> bb_type" where
  "type_of_value (VEntity _) = TEntity"
| "type_of_value (VFloat _) = TFloat"
| "type_of_value (VPosition _) = TPosition"
| "type_of_value (VBool _) = TBool"

text \<open>The process-wide name table: slot \<open>i\<close> is the \<open>i\<close>-th registered name.\<close>

type_synonym name_table = "(string \<times> bb_type) list"

type_synonym blackboard = "nat \<Rightarrow> bb_value option"

primrec slot_of :: "string \<Rightarrow> name_table \<Rightarrow> nat option" where
  "slot_of n [] = None"
| "slot_of n (e # es) = (if fst e = n then Some 0 else map_option Suc (slot_of n es))"

section \<open>Operations\<close>

text \<open>\<open>register(name, type)\<close>: the slot of the name, appending it on first use.\<close>

definition bb_register :: "string \<Rightarrow> bb_type \<Rightarrow> name_table \<Rightarrow> nat \<times> name_table" where
  "bb_register n t tbl =
     (case slot_of n tbl of Some i \<Rightarrow> (i, tbl) | None \<Rightarrow> (length tbl, tbl @ [(n, t)]))"

definition bb_set :: "nat \<Rightarrow> bb_value \<Rightarrow> blackboard \<Rightarrow> blackboard" where
  "bb_set i v bb = bb(i \<mapsto> v)"

text \<open>\<open>get<T>(slot)\<close>: fails fast on an unregistered slot, a type that disagrees with
  the registered one, a stored value of another type, or a slot never set.\<close>

definition bb_get :: "name_table \<Rightarrow> bb_type \<Rightarrow> nat \<Rightarrow> blackboard \<Rightarrow> bb_error + bb_value" where
  "bb_get tbl t i bb =
     (if length tbl \<le> i then Inl Unregistered
      else if snd (tbl ! i) \<noteq> t then Inl BadType
      else case bb i of
             None \<Rightarrow> Inl Unset
           | Some v \<Rightarrow> if type_of_value v = t then Inr v else Inl BadType)"

text \<open>Every stored value has the type its slot was registered with.\<close>

definition bb_wf :: "name_table \<Rightarrow> blackboard \<Rightarrow> bool" where
  "bb_wf tbl bb \<longleftrightarrow> (\<forall>i v. bb i = Some v \<longrightarrow> i < length tbl \<and> snd (tbl ! i) = type_of_value v)"

section \<open>Registration and access\<close>

lemma slot_of_Some:
  "slot_of n tbl = Some i \<Longrightarrow> i < length tbl \<and> fst (tbl ! i) = n"
  by (induction tbl arbitrary: i) (auto split: if_splits)

lemma slot_of_None: "slot_of n tbl = None \<longleftrightarrow> n \<notin> fst ` set tbl"
  by (induction tbl) auto

lemma slot_of_append:
  "slot_of n (tbl @ [(m, t)]) =
     (case slot_of n tbl of Some i \<Rightarrow> Some i | None \<Rightarrow> if m = n then Some (length tbl) else None)"
  by (induction tbl) (auto split: option.split)

lemma bb_register_slot:
  "bb_register n t tbl = (i, tbl') \<Longrightarrow> slot_of n tbl' = Some i"
  by (auto simp: bb_register_def slot_of_append split: option.splits)

lemma bb_register_prefix:
  "bb_register n t tbl = (i, tbl') \<Longrightarrow> take (length tbl) tbl' = tbl"
  by (auto simp: bb_register_def split: option.splits)

text \<open>Registering a name a second time, with any type, returns the slot of the
  first registration and leaves the name table unchanged.\<close>

lemma bb_register_idempotent:
  "bb_register n t' (snd (bb_register n t tbl)) = bb_register n t tbl"
  by (auto simp: bb_register_def slot_of_append split: option.splits)

text \<open>A registration never moves a slot that is already assigned.\<close>

lemma bb_register_stable:
  "bb_register n t tbl = (i, tbl') \<Longrightarrow> slot_of m tbl = Some j \<Longrightarrow> slot_of m tbl' = Some j"
  by (auto simp: bb_register_def slot_of_append split: option.splits)

lemma slot_of_inj:
  "slot_of n tbl = Some i \<Longrightarrow> slot_of m tbl = Some i \<Longrightarrow> n = m"
  using slot_of_Some [of n tbl i] slot_of_Some [of m tbl i] by simp

text \<open>Two different names registered one after the other get different slots.\<close>

lemma bb_register_distinct:
  assumes "bb_register n t tbl = (i, tbl1)" "bb_register m u tbl1 = (j, tbl2)" "n \<noteq> m"
  shows "i \<noteq> j"
proof -
  have n1: "slot_of n tbl1 = Some i" by (rule bb_register_slot [OF assms(1)])
  show ?thesis
  proof (cases "slot_of m tbl1")
    case (Some k)
    then have "j = k" using assms(2) by (simp add: bb_register_def)
    with Some n1 assms(3) show ?thesis using slot_of_inj by blast
  next
    case None
    then have "j = length tbl1" using assms(2) by (simp add: bb_register_def)
    with n1 show ?thesis using slot_of_Some by fastforce
  qed
qed

text \<open>Reading a slot with its registered type returns the value last stored there.\<close>

lemma bb_get_set:
  "i < length tbl \<Longrightarrow> snd (tbl ! i) = type_of_value v \<Longrightarrow>
   bb_get tbl (type_of_value v) i (bb_set i v bb) = Inr v"
  by (simp add: bb_get_def bb_set_def)

lemma bb_get_other_slot:
  "j \<noteq> i \<Longrightarrow> bb_get tbl t j (bb_set i v bb) = bb_get tbl t j bb"
  by (simp add: bb_get_def bb_set_def)

text \<open>Reading a slot with a type other than its registered type fails fast.\<close>

lemma bb_get_wrong_type:
  "i < length tbl \<Longrightarrow> snd (tbl ! i) \<noteq> t \<Longrightarrow> bb_get tbl t i bb = Inl BadType"
  by (simp add: bb_get_def)

lemma bb_wf_set:
  "bb_wf tbl bb \<Longrightarrow> i < length tbl \<Longrightarrow> snd (tbl ! i) = type_of_value v \<Longrightarrow> bb_wf tbl (bb_set i v bb)"
  by (auto simp: bb_wf_def bb_set_def)

lemma bb_wf_register:
  assumes "bb_wf tbl bb" "bb_register n t tbl = (i, tbl')"
  shows "bb_wf tbl' bb"
proof -
  have p: "take (length tbl) tbl' = tbl" by (rule bb_register_prefix [OF assms(2)])
  then have "length (take (length tbl) tbl') = length tbl" by simp
  then have "length tbl \<le> length tbl'" by simp
  moreover have "\<forall>k < length tbl. tbl' ! k = tbl ! k"
    using p nth_take [of _ "length tbl" tbl'] by simp
  ultimately show ?thesis using assms(1) by (fastforce simp: bb_wf_def)
qed

lemma bb_wf_get:
  "bb_wf tbl bb \<Longrightarrow> bb i = Some v \<Longrightarrow> bb_get tbl (type_of_value v) i bb = Inr v"
  by (simp add: bb_wf_def bb_get_def) (metis not_le)

lemma bb_register_distinct_names:
  "distinct (map fst tbl) \<Longrightarrow> distinct (map fst (snd (bb_register n t tbl)))"
  by (auto simp: bb_register_def slot_of_None split: option.split)

lemma bb_register_new_type:
  "bb_register n t tbl = (i, tbl') \<Longrightarrow> slot_of n tbl = None \<Longrightarrow> i < length tbl' \<and> snd (tbl' ! i) = t"
  by (auto simp: bb_register_def)

lemma bb_register_old:
  "bb_register n t tbl = (i, tbl') \<Longrightarrow> slot_of n tbl = Some j \<Longrightarrow> i = j \<and> tbl' = tbl"
  by (auto simp: bb_register_def)

end
