(* ===== verification/Tree.thy ===== *)
theory Tree
  imports Composites Utility Blackboard World
begin

text \<open>
  The behaviour tree of src/w2/behaviourTree.h and the nodes of
  src/w2/behLibrary.cpp and src/w3/behLibrary.cpp as one datatype \<open>node\<close>, with
  the virtual methods \<open>update\<close> (\<open>tick\<close>) and \<open>react\<close> (\<open>react\<close>) defined by
  recursion over it: a composite hands the runners of its children to the
  combinators of \<open>Composites\<close>, a utility selector to \<open>util_loop\<close>, a leaf
  reads and writes the world and the blackboard.

  The state \<open>ai_state\<close> is everything a tick can touch: the world, the name
  table, every entity's blackboard, every entity's tree, the fields
  \<open>last_choice\<close> and \<open>stale\<close> of every utility selector (indexed by the
  selector's identity, the object's address), and the two random sources, the
  \<open>std::default_random_engine\<close> of \<open>rnd::get_engine\<close> and raylib's
  \<open>GetRandomValue\<close>. An error of a blackboard read or a sampler that never
  returns aborts the tick (\<open>Inl\<close>).

  \<open>entity.set([&](A &a, const B &b) {...})\<close> runs its body on the entity's
  components. The model runs it when the entity has them; tree-owning entities
  are created with all of them by \<open>create_npc\<close> (src/w2/roguelike.cpp), and
  the case where flecs would add default components is not modelled.
\<close>

section \<open>Events, errors and nodes\<close>

datatype event_type = HoardAlert

text \<open>\<open>struct Event { EventType type; void* custom_data; }\<close>; the only payload
  the sources send is a pointer to an entity handle, kept here as the handle.\<close>

record event =
  ev_type :: event_type
  ev_data :: eid

datatype bt_error = BBError bb_error | SamplerDiverges

datatype node =
    Sequence "node list"
  | Selector "node list"
  | OrNode "node list"
  | Parallel "node list"
  | NotNode node
  | UtilitySelector nat "(nat \<times> node \<times> (blackboard \<Rightarrow> real) \<times> string) list"
  | MoveToEntity nat
  | IsLowHp real
  | FindEnemy nat real
  | FindClosestOf query_kind nat real
  | FindWaypoint nat
  | Flee nat
  | Patrol nat real
  | HoardListener nat nat
  | AlertHoard real nat
  | RandomWalk
  | PatchUp real

record ai_state =
  world :: world
  names :: name_table
  bbs :: "eid \<Rightarrow> blackboard"
  trees :: "eid \<Rightarrow> node option"
  utils :: "nat \<Rightarrow> util_state"
  rng :: "nat \<Rightarrow> real"
  rng_pos :: nat
  rl_rand :: "nat \<Rightarrow> nat"
  rl_pos :: nat

section \<open>Random sources, blackboard access and component writes\<close>

text \<open>\<open>distr(rengine)\<close>: the next draw of the standard engine.\<close>

definition std_draw :: "ai_state \<Rightarrow> real \<times> ai_state" where
  "std_draw st = (rng st (rng_pos st), st\<lparr>rng_pos := Suc (rng_pos st)\<rparr>)"

text \<open>\<open>GetRandomValue(EA_MOVE_START, EA_MOVE_END - 1)\<close>: raylib's
  \<open>min + rand() % (max - min + 1)\<close> over the move actions.\<close>

definition random_move :: "ai_state \<Rightarrow> action \<times> ai_state" where
  "random_move st =
     (move_actions ! (rl_rand st (rl_pos st) mod length move_actions), st\<lparr>rl_pos := Suc (rl_pos st)\<rparr>)"

definition bb_read :: "bb_type \<Rightarrow> nat \<Rightarrow> eid \<Rightarrow> ai_state \<Rightarrow> bt_error + bb_value" where
  "bb_read t i e st = (case bb_get (names st) t i (bbs st e) of Inl err \<Rightarrow> Inl (BBError err) | Inr v \<Rightarrow> Inr v)"

fun the_entity :: "bb_value \<Rightarrow> eid" where
  "the_entity (VEntity x) = x"
| "the_entity _ = 0"

fun the_position :: "bb_value \<Rightarrow> position" where
  "the_position (VPosition p) = p"
| "the_position _ = (0, 0)"

text \<open>\<open>bb.set<T>(slot, v)\<close> on the blackboard of entity \<open>e\<close>.\<close>

definition bb_write :: "nat \<Rightarrow> bb_value \<Rightarrow> eid \<Rightarrow> ai_state \<Rightarrow> ai_state" where
  "bb_write i v e st = st\<lparr>bbs := (bbs st)(e := bb_set i v (bbs st e))\<rparr>"

text \<open>\<open>a.action = ...\<close> on the entity's \<open>Action\<close> component.\<close>

definition set_action :: "eid \<Rightarrow> action \<Rightarrow> ai_state \<Rightarrow> ai_state" where
  "set_action e a st = st\<lparr>world := (world st)\<lparr>act := (act (world st))(e \<mapsto> a)\<rparr>\<rparr>"

section \<open>Leaf nodes\<close>

text \<open>\<open>MoveToEntity::update\<close>.\<close>

definition move_to_entity_update :: "nat \<Rightarrow> eid \<Rightarrow> (bt_error, ai_state) runner" where
  "move_to_entity_update entityBb e st =
     (let w = world st in
      case (act w e, pos w e) of
        (Some _, Some p) \<Rightarrow>
          (case bb_read TEntity entityBb e st of
             Inl err \<Rightarrow> Inl err
           | Inr v \<Rightarrow>
               let targetEntity = the_entity v in
               if \<not> is_alive w targetEntity then Inr (BEH_FAIL, st)
               else case pos w targetEntity of
                      None \<Rightarrow> Inr (BEH_RUNNING, st)
                    | Some target_pos \<Rightarrow>
                        if p \<noteq> target_pos
                        then Inr (BEH_RUNNING, set_action e (move_towards p target_pos) st)
                        else Inr (BEH_SUCCESS, st))
      | _ \<Rightarrow> Inr (BEH_RUNNING, st))"

text \<open>\<open>IsLowHp::update\<close>: success when the entity has no \<open>Hitpoints\<close>.\<close>

definition is_low_hp_update :: "real \<Rightarrow> eid \<Rightarrow> (bt_error, ai_state) runner" where
  "is_low_hp_update threshold e st =
     Inr (case hitpoints (world st) e of
            None \<Rightarrow> BEH_SUCCESS
          | Some hp \<Rightarrow> if hp < threshold then BEH_SUCCESS else BEH_FAIL, st)"

text \<open>\<open>FindEnemy::update\<close> and \<open>FindClosestOf::update\<close>: the closest match
  within the distance, stored in the blackboard.\<close>

definition find_enemy_update :: "nat \<Rightarrow> real \<Rightarrow> eid \<Rightarrow> (bt_error, ai_state) runner" where
  "find_enemy_update entityBb distance e st =
     (let w = world st in
      case (pos w e, team w e) of
        (Some p, Some t) \<Rightarrow>
          (case closest_loop (enemy_filter w t) w p (ents w) (0, FLT_MAX) of
             (closestEnemy, closestDist) \<Rightarrow>
               if is_valid w closestEnemy \<and> closestDist \<le> distance
               then Inr (BEH_SUCCESS, bb_write entityBb (VEntity closestEnemy) e st)
               else Inr (BEH_FAIL, st))
      | _ \<Rightarrow> Inr (BEH_FAIL, st))"

definition find_closest_update :: "query_kind \<Rightarrow> nat \<Rightarrow> real \<Rightarrow> eid \<Rightarrow> (bt_error, ai_state) runner" where
  "find_closest_update q entityBb distance e st =
     (let w = world st in
      case pos w e of
        Some p \<Rightarrow>
          (case closest_loop (kind_filter q w) w p (ents w) (0, FLT_MAX) of
             (closest, closestDist) \<Rightarrow>
               if is_valid w closest \<and> closestDist \<le> distance
               then Inr (BEH_SUCCESS, bb_write entityBb (VEntity closest) e st)
               else Inr (BEH_FAIL, st))
      | None \<Rightarrow> Inr (BEH_FAIL, st))"

text \<open>\<open>FindWaypoint::update\<close>: advance to the next waypoint when standing on the
  current one, then store the current waypoint.\<close>

definition find_waypoint_update :: "nat \<Rightarrow> eid \<Rightarrow> (bt_error, ai_state) runner" where
  "find_waypoint_update entityBb e st =
     (let w = world st in
      case (pos w e, cur_wp w e) of
        (Some p, Some wp) \<Rightarrow>
          (let wp' = (case (pos w wp, next_wp w wp) of
                        (Some wpos, Some nxt) \<Rightarrow> if p = wpos then nxt else wp
                      | _ \<Rightarrow> wp);
               st' = st\<lparr>world := w\<lparr>cur_wp := (cur_wp w)(e \<mapsto> wp')\<rparr>\<rparr>
           in if is_valid w wp' then Inr (BEH_SUCCESS, bb_write entityBb (VEntity wp') e st')
              else Inr (BEH_FAIL, st'))
      | _ \<Rightarrow> Inr (BEH_FAIL, st))"

text \<open>\<open>Flee::update\<close>: step away from the target; running while it lives.\<close>

definition flee_update :: "nat \<Rightarrow> eid \<Rightarrow> (bt_error, ai_state) runner" where
  "flee_update entityBb e st =
     (let w = world st in
      case (act w e, pos w e) of
        (Some _, Some p) \<Rightarrow>
          (case bb_read TEntity entityBb e st of
             Inl err \<Rightarrow> Inl err
           | Inr v \<Rightarrow>
               let targetEntity = the_entity v in
               if \<not> is_alive w targetEntity then Inr (BEH_FAIL, st)
               else case pos w targetEntity of
                      None \<Rightarrow> Inr (BEH_RUNNING, st)
                    | Some target_pos \<Rightarrow>
                        Inr (BEH_RUNNING, set_action e (inverse_move (move_towards p target_pos)) st))
      | _ \<Rightarrow> Inr (BEH_RUNNING, st))"

text \<open>\<open>Patrol::update\<close>: back towards the patrol point when too far, else a
  random step.\<close>

definition patrol_update :: "nat \<Rightarrow> real \<Rightarrow> eid \<Rightarrow> (bt_error, ai_state) runner" where
  "patrol_update pposBb patrolDist e st =
     (let w = world st in
      case (act w e, pos w e) of
        (Some _, Some p) \<Rightarrow>
          (case bb_read TPosition pposBb e st of
             Inl err \<Rightarrow> Inl err
           | Inr v \<Rightarrow>
               let patrolPos = the_position v in
               if dist_pos p patrolPos > patrolDist
               then Inr (BEH_RUNNING, set_action e (move_towards p patrolPos) st)
               else (case random_move st of (m, st') \<Rightarrow> Inr (BEH_RUNNING, set_action e m st')))
      | _ \<Rightarrow> Inr (BEH_RUNNING, st))"

text \<open>\<open>RandomWalk::update\<close> and \<open>PatchUp::update\<close> (src/w3/behLibrary.cpp).\<close>

definition random_walk_update :: "eid \<Rightarrow> (bt_error, ai_state) runner" where
  "random_walk_update e st =
     (case act (world st) e of
        Some _ \<Rightarrow> (case random_move st of (m, st') \<Rightarrow> Inr (BEH_RUNNING, set_action e m st'))
      | None \<Rightarrow> Inr (BEH_RUNNING, st))"

definition patch_up_update :: "real \<Rightarrow> eid \<Rightarrow> (bt_error, ai_state) runner" where
  "patch_up_update hpThreshold e st =
     (case (act (world st) e, hitpoints (world st) e) of
        (Some _, Some hp) \<Rightarrow>
          if hp \<ge> hpThreshold then Inr (BEH_SUCCESS, st)
          else Inr (BEH_RUNNING, set_action e EA_HEAL_SELF st)
      | _ \<Rightarrow> Inr (BEH_SUCCESS, st))"

text \<open>\<open>HoardListener::react\<close>: on an alert, raise the flag and store the
  provoker. (\<open>HoardListener::update\<close> always fails.)\<close>

definition hoard_listener_react :: "nat \<Rightarrow> nat \<Rightarrow> eid \<Rightarrow> event \<Rightarrow> (bt_error, ai_state) reactor" where
  "hoard_listener_react target_index flag_index e ev st =
     (if ev_type ev = HoardAlert
      then Inr (bb_write target_index (VEntity (ev_data ev)) e (bb_write flag_index (VBool True) e st))
      else Inr st)"

section \<open>react\<close>

text \<open>
  \<open>BehNode::react\<close> and its overrides: the w2 composites forward to every
  child, \<open>UtilitySelector\<close> and the leaves other than \<open>HoardListener\<close> keep
  the default, which does nothing.
\<close>

fun react :: "node \<Rightarrow> eid \<Rightarrow> event \<Rightarrow> (bt_error, ai_state) reactor" where
  "react (Sequence cs) e ev = react_all (map (\<lambda>c. react c e ev) cs)"
| "react (Selector cs) e ev = react_all (map (\<lambda>c. react c e ev) cs)"
| "react (OrNode cs) e ev = react_all (map (\<lambda>c. react c e ev) cs)"
| "react (Parallel cs) e ev = react_all (map (\<lambda>c. react c e ev) cs)"
| "react (NotNode c) e ev = react_all [react c e ev]"
| "react (HoardListener target_index flag_index) e ev = hoard_listener_react target_index flag_index e ev"
| "react _ e ev = Inr"

text \<open>\<open>BehaviourTree::event\<close>: \<open>root->react(ecs, entity, bb, event)\<close> on the
  tree of entity \<open>e\<close>.\<close>

definition tree_event :: "eid \<Rightarrow> event \<Rightarrow> (bt_error, ai_state) reactor" where
  "tree_event e ev st = (case trees st e of None \<Rightarrow> Inr st | Some root_node \<Rightarrow> react root_node e ev st)"

text \<open>
  The loop of \<open>AlertHoard::update\<close> over \<open>query<const Position,
  BehaviourTree, Blackboard>\<close>: every entity with a tree within the alert distance
  receives a \<open>HoardAlert\<close> carrying the enemy, the alerting entity included.
\<close>

fun alert_loop :: "real \<Rightarrow> position \<Rightarrow> eid \<Rightarrow> eid list \<Rightarrow> (bt_error, ai_state) reactor" where
  "alert_loop m_alert_dist e_pos enemy [] st = Inr st"
| "alert_loop m_alert_dist e_pos enemy (x # xs) st =
     (case (pos (world st) x, trees st x) of
        (Some p, Some _) \<Rightarrow>
          if m_alert_dist \<ge> dist_pos e_pos p
          then (case tree_event x \<lparr>ev_type = HoardAlert, ev_data = enemy\<rparr> st of
                  Inl err \<Rightarrow> Inl err
                | Inr st' \<Rightarrow> alert_loop m_alert_dist e_pos enemy xs st')
          else alert_loop m_alert_dist e_pos enemy xs st
      | _ \<Rightarrow> alert_loop m_alert_dist e_pos enemy xs st)"

text \<open>\<open>AlertHoard::update\<close>.\<close>

definition alert_hoard_update :: "real \<Rightarrow> nat \<Rightarrow> eid \<Rightarrow> (bt_error, ai_state) runner" where
  "alert_hoard_update m_alert_dist m_bb_index e st =
     (case bb_read TEntity m_bb_index e st of
        Inl err \<Rightarrow> Inl err
      | Inr v \<Rightarrow>
          let enemy = the_entity v; w = world st in
          if \<not> is_valid w enemy \<or> \<not> is_alive w enemy then Inr (BEH_FAIL, st)
          else case pos w e of
                 None \<Rightarrow> Inr (BEH_SUCCESS, st)
               | Some e_pos \<Rightarrow>
                   (case alert_loop m_alert_dist e_pos enemy (ents w) st of
                      Inl err \<Rightarrow> Inl err
                    | Inr st' \<Rightarrow> Inr (BEH_SUCCESS, st')))"

section \<open>update\<close>

text \<open>The utility selector \<open>uid\<close> on the state: its fields are read from and
  written back to the store; a sampler that never returns is an error.\<close>

definition util_tick ::
  "nat \<Rightarrow> (bt_error, ai_state, blackboard) uentry list \<Rightarrow> eid \<Rightarrow> (bt_error, ai_state) runner" where
  "util_tick uid entries e st =
     (case util_loop (\<lambda>s. bbs s e) std_draw entries (utils st uid) st of
        None \<Rightarrow> Inl SamplerDiverges
      | Some (Inl err) \<Rightarrow> Inl err
      | Some (Inr (res, us', st')) \<Rightarrow> Inr (res, st'\<lparr>utils := (utils st')(uid := us')\<rparr>))"

fun tick :: "node \<Rightarrow> eid \<Rightarrow> (bt_error, ai_state) runner" where
  "tick (Sequence cs) e = sequence_update (map (\<lambda>c. tick c e) cs)"
| "tick (Selector cs) e = selector_update (map (\<lambda>c. tick c e) cs)"
| "tick (OrNode cs) e = or_update (map (\<lambda>c. tick c e) cs)"
| "tick (Parallel cs) e = parallel_update (map (\<lambda>c. tick c e) cs)"
| "tick (NotNode c) e = not_update (tick c e)"
| "tick (UtilitySelector uid es) e = util_tick uid (map (\<lambda>(n, c, f, l). (n, tick c e, f, l)) es) e"
| "tick (MoveToEntity entityBb) e = move_to_entity_update entityBb e"
| "tick (IsLowHp threshold) e = is_low_hp_update threshold e"
| "tick (FindEnemy entityBb distance) e = find_enemy_update entityBb distance e"
| "tick (FindClosestOf q entityBb distance) e = find_closest_update q entityBb distance e"
| "tick (FindWaypoint entityBb) e = find_waypoint_update entityBb e"
| "tick (Flee entityBb) e = flee_update entityBb e"
| "tick (Patrol pposBb patrolDist) e = patrol_update pposBb patrolDist e"
| "tick (HoardListener _ _) e = (\<lambda>st. Inr (BEH_FAIL, st))"
| "tick (AlertHoard m_alert_dist m_bb_index) e = alert_hoard_update m_alert_dist m_bb_index e"
| "tick RandomWalk e = random_walk_update e"
| "tick (PatchUp hpThreshold) e = patch_up_update hpThreshold e"

text \<open>\<open>BehaviourTree::update\<close>: \<open>root->update(ecs, entity, bb)\<close>, result
  discarded.\<close>

definition tree_update :: "eid \<Rightarrow> (bt_error, ai_state) reactor" where
  "tree_update e st = (case trees st e of None \<Rightarrow> Inr st | Some root_node \<Rightarrow> map_sum id snd (tick root_node e st))"

end
