(* ===== verification/Tree_Invariants.thy ===== *)
theory Tree_Invariants
  imports Tree
begin

text \<open>
  Invariants of ticks and events over whole trees. \<open>keeps P Q\<close> (BT_Prelude)
  is established for every leaf from a few closure facts about \<open>P\<close>, passed up
  through the composites (Composites) and the utility selector (Utility), and
  through \<open>AlertHoard\<close>'s dispatch to other trees; \<open>tick_keeps\<close> and
  \<open>react_keeps\<close> are these inductions over the node datatype, done once. They
  are instantiated twice: the frame of a tick (names, trees and every world
  component except \<open>Action\<close> and \<open>CurrentWaypoint\<close> unchanged, the sampler
  never diverging when draws lie in [0, 1)), and well-typedness (a tree whose
  slots are registered with the types its nodes use keeps every blackboard
  well typed and fails only on a slot never set). The event dispatch of a
  tree is the sequential delivery to its listeners in depth-first order.
\<close>

section \<open>Shape of a tree and well-typed trees\<close>

fun composite :: "node \<Rightarrow> bool" where
  "composite (Sequence _) = True"
| "composite (Selector _) = True"
| "composite (OrNode _) = True"
| "composite (Parallel _) = True"
| "composite (NotNode _) = True"
| "composite (UtilitySelector _ _) = True"
| "composite _ = False"

fun children :: "node \<Rightarrow> node list" where
  "children (Sequence cs) = cs"
| "children (Selector cs) = cs"
| "children (OrNode cs) = cs"
| "children (Parallel cs) = cs"
| "children (NotNode c) = [c]"
| "children (UtilitySelector _ es) = map (\<lambda>(_, c, _, _). c) es"
| "children _ = []"

definition slot_ok :: "name_table \<Rightarrow> bb_type \<Rightarrow> nat \<Rightarrow> bool" where
  "slot_ok tbl t i \<longleftrightarrow> i < length tbl \<and> snd (tbl ! i) = t"

fun node_wf :: "name_table \<Rightarrow> node \<Rightarrow> bool" where
  "node_wf tbl (Sequence cs) = (\<forall>c \<in> set cs. node_wf tbl c)"
| "node_wf tbl (Selector cs) = (\<forall>c \<in> set cs. node_wf tbl c)"
| "node_wf tbl (OrNode cs) = (\<forall>c \<in> set cs. node_wf tbl c)"
| "node_wf tbl (Parallel cs) = (\<forall>c \<in> set cs. node_wf tbl c)"
| "node_wf tbl (NotNode c) = node_wf tbl c"
| "node_wf tbl (UtilitySelector _ es) = (\<forall>(_, c, _, _) \<in> set es. node_wf tbl c)"
| "node_wf tbl (MoveToEntity i) = slot_ok tbl TEntity i"
| "node_wf tbl (IsLowHp _) = True"
| "node_wf tbl (FindEnemy i _) = slot_ok tbl TEntity i"
| "node_wf tbl (FindClosestOf _ i _) = slot_ok tbl TEntity i"
| "node_wf tbl (FindWaypoint i) = slot_ok tbl TEntity i"
| "node_wf tbl (Flee i) = slot_ok tbl TEntity i"
| "node_wf tbl (Patrol i _) = slot_ok tbl TPosition i"
| "node_wf tbl (HoardListener t f) = (slot_ok tbl TEntity t \<and> slot_ok tbl TBool f)"
| "node_wf tbl (AlertHoard _ i) = slot_ok tbl TEntity i"
| "node_wf tbl RandomWalk = True"
| "node_wf tbl (PatchUp _) = True"

definition draws_ok :: "ai_state \<Rightarrow> bool" where
  "draws_ok st \<longleftrightarrow> (\<forall>k. 0 \<le> rng st k \<and> rng st k < 1)"

definition state_wf :: "ai_state \<Rightarrow> bool" where
  "state_wf st \<longleftrightarrow> draws_ok st \<and> (\<forall>e. bb_wf (names st) (bbs st e)) \<and>
     (\<forall>e n. trees st e = Some n \<longrightarrow> node_wf (names st) n)"

definition frame_of :: "world \<Rightarrow> world" where
  "frame_of w = w\<lparr>act := Map.empty, cur_wp := Map.empty\<rparr>"

definition same_frame :: "ai_state \<Rightarrow> ai_state \<Rightarrow> bool" where
  "same_frame st0 st \<longleftrightarrow> names st = names st0 \<and> trees st = trees st0 \<and>
     frame_of (world st) = frame_of (world st0)"

text \<open>The listeners of a tree, depth first: the nodes whose \<open>react\<close> does
  something.\<close>

fun listeners :: "node \<Rightarrow> (nat \<times> nat) list" where
  "listeners (Sequence cs) = concat (map listeners cs)"
| "listeners (Selector cs) = concat (map listeners cs)"
| "listeners (OrNode cs) = concat (map listeners cs)"
| "listeners (Parallel cs) = concat (map listeners cs)"
| "listeners (NotNode c) = listeners c"
| "listeners (HoardListener t f) = [(t, f)]"
| "listeners _ = []"

text \<open>The state for the witnesses: entity 1 of \<open>demo_world\<close> runs the tree
  \<open>n\<close> with slot 0 named \<open>attack_enemy\<close>.\<close>

definition demo_state :: "node \<Rightarrow> ai_state" where
  "demo_state n =
     \<lparr>world = demo_world, names = [(''attack_enemy'', TEntity)], bbs = (\<lambda>_. Map.empty),
      trees = [1 \<mapsto> n], utils = (\<lambda>_. \<lparr>last_choice = None, stale = 0\<rparr>),
      rng = (\<lambda>_. 1 / 2), rng_pos = 0, rl_rand = (\<lambda>_. 0), rl_pos = 0\<rparr>"

lemma ai_state_fields [simp]:
  "names (set_action e a st) = names st" "trees (set_action e a st) = trees st"
  "bbs (set_action e a st) = bbs st"
  "names (bb_write i v e st) = names st" "trees (bb_write i v e st) = trees st"
  "world (bb_write i v e st) = world st"
  "names (snd (random_move st)) = names st" "trees (snd (random_move st)) = trees st"
  "bbs (snd (random_move st)) = bbs st" "world (snd (random_move st)) = world st"
  "names (snd (std_draw st)) = names st" "trees (snd (std_draw st)) = trees st"
  "bbs (snd (std_draw st)) = bbs st" "world (snd (std_draw st)) = world st"
  by (simp_all add: set_action_def bb_write_def random_move_def std_draw_def)

lemma node_wf_children: "node_wf tbl n \<Longrightarrow> c \<in> set (children n) \<Longrightarrow> node_wf tbl c"
  by (cases n) auto


section \<open>Invariants of whole trees\<close>

lemma util_tick_keeps:
  assumes kids: "\<forall>x \<in> set entries. keeps P Q (fst (snd x))"
    and draws: "\<And>st. P st \<Longrightarrow> fst (std_draw st) < 1"
    and eng: "\<And>st. P st \<Longrightarrow> P (snd (std_draw st))"
    and utils: "\<And>st us. P st \<Longrightarrow> P (st\<lparr>utils := (utils st)(uid := us)\<rparr>)"
  shows "keeps P Q (util_tick uid entries e)"
proof (rule keepsI)
  fix st assume P: "P st"
  obtain res where r: "util_loop (\<lambda>s. bbs s e) std_draw entries (utils st uid) st = Some res"
    and c: "case res of Inl err \<Rightarrow> Q err | Inr (_, _, s') \<Rightarrow> P s'"
    using util_loop_keeps [where P = P and Q = Q and distr = std_draw, OF _ _ kids P] draws eng
    by blast
  show "case util_tick uid entries e st of Inl err \<Rightarrow> Q err | Inr (_, s') \<Rightarrow> P s'"
    using r c utils by (auto simp: util_tick_def split: sum.splits)
qed

lemma tick_keeps:
  assumes leaves: "\<And>n e. G n \<Longrightarrow> \<not> composite n \<Longrightarrow> keeps P Q (tick n e)"
    and down: "\<And>n c. G n \<Longrightarrow> c \<in> set (children n) \<Longrightarrow> G c"
    and draws: "\<And>st. P st \<Longrightarrow> fst (std_draw st) < 1"
    and eng: "\<And>st. P st \<Longrightarrow> P (snd (std_draw st))"
    and utils: "\<And>st uid us. P st \<Longrightarrow> P (st\<lparr>utils := (utils st)(uid := us)\<rparr>)"
  shows "G n \<Longrightarrow> keeps P Q (tick n e)"
proof (induction n e rule: tick.induct)
  case (1 cs e)
  then show ?case using down by (auto intro!: keeps_sequence)
next
  case (2 cs e)
  then show ?case using down by (auto intro!: keeps_selector)
next
  case (3 cs e)
  then show ?case using down by (auto simp: or_update_def intro!: keeps_or_loop)
next
  case (4 cs e)
  then show ?case using down by (auto simp: parallel_update_def intro!: keeps_parallel_loop)
next
  case (5 c e)
  then show ?case using down by (auto intro!: keeps_not)
next
  case (6 uid es e)
  have "\<forall>x \<in> set (map (\<lambda>(n, c, f, l). (n, tick c e, f, l)) es). keeps P Q (fst (snd x))"
  proof
    fix x assume "x \<in> set (map (\<lambda>(n, c, f, l). (n, tick c e, f, l)) es)"
    then obtain n c f l where x: "x = (n, tick c e, f, l)" and mem: "(n, c, f, l) \<in> set es"
      by auto
    have "G c" using down [OF 6(2)] mem by force
    then show "keeps P Q (fst (snd x))" using 6(1) [OF mem refl refl refl] x by simp
  qed
  then show ?case using draws eng utils by (simp add: util_tick_keeps)
qed ((rule leaves; simp)+)


lemma react_keeps:
  assumes lis: "\<And>t f e ev. G (HoardListener t f) \<Longrightarrow> rkeeps P Q (hoard_listener_react t f e ev)"
    and down: "\<And>n c. G n \<Longrightarrow> c \<in> set (children n) \<Longrightarrow> G c"
  shows "G n \<Longrightarrow> rkeeps P Q (react n e ev)"
proof (induction n e ev rule: react.induct)
  case (1 cs e ev)
  then show ?case using down by (auto intro!: rkeeps_react_all)
next
  case (2 cs e ev)
  then show ?case using down by (auto intro!: rkeeps_react_all)
next
  case (3 cs e ev)
  then show ?case using down by (auto intro!: rkeeps_react_all)
next
  case (4 cs e ev)
  then show ?case using down by (auto intro!: rkeeps_react_all)
next
  case (5 c e ev)
  then have "rkeeps P Q (react c e ev)" using down by simp
  then show ?case by (simp only: react.simps) (rule rkeeps_react_all, simp)
next
  case (6 t f e ev)
  then show ?case by (simp add: lis)
qed simp_all

lemma alert_loop_keeps:
  assumes trees: "\<And>st x n. P st \<Longrightarrow> trees st x = Some n \<Longrightarrow>
                    rkeeps P Q (react n x \<lparr>ev_type = HoardAlert, ev_data = enemy\<rparr>)"
  shows "P st \<Longrightarrow> case alert_loop d p enemy xs st of Inl err \<Rightarrow> Q err | Inr st' \<Rightarrow> P st'"
proof (induction xs arbitrary: st)
  case Nil
  then show ?case by simp
next
  case (Cons x xs)
  show ?case
  proof (cases "pos (world st) x")
    case None
    then show ?thesis using Cons by simp
  next
    case (Some px)
    show ?thesis
    proof (cases "trees st x")
      case None
      then show ?thesis using Cons Some by simp
    next
      case (Some n)
      show ?thesis
      proof (cases "d \<ge> dist_pos p px")
        case False
        then show ?thesis using \<open>pos (world st) x = Some px\<close> Some Cons.IH [OF Cons.prems] by simp
      next
        case True
        have r: "case react n x \<lparr>ev_type = HoardAlert, ev_data = enemy\<rparr> st of
                   Inl err \<Rightarrow> Q err | Inr st' \<Rightarrow> P st'"
          using rkeepsD [OF trees [OF Cons.prems Some] Cons.prems] .
        show ?thesis
        proof (cases "react n x \<lparr>ev_type = HoardAlert, ev_data = enemy\<rparr> st")
          case (Inl err)
          then show ?thesis using \<open>pos (world st) x = Some px\<close> Some True r
            by (simp add: tree_event_def)
        next
          case (Inr st')
          then have "P st'" using r by simp
          then show ?thesis using \<open>pos (world st) x = Some px\<close> Some True Inr Cons.IH [of st']
            by (simp add: tree_event_def)
        qed
      qed
    qed
  qed
qed

section \<open>The leaves\<close>

lemma move_to_entity_keeps:
  assumes act: "\<And>st a. P st \<Longrightarrow> P (set_action e a st)"
    and rd: "\<And>st err. P st \<Longrightarrow> bb_read TEntity i e st = Inl err \<Longrightarrow> Q err"
  shows "keeps P Q (move_to_entity_update i e)"
  unfolding keeps_def move_to_entity_update_def Let_def
  using act rd by (auto split: option.splits sum.splits)

lemma is_low_hp_keeps: "keeps P Q (is_low_hp_update threshold e)"
  by (simp add: keeps_def is_low_hp_update_def)

lemma find_enemy_keeps:
  assumes wr: "\<And>st x. P st \<Longrightarrow> P (bb_write i (VEntity x) e st)"
  shows "keeps P Q (find_enemy_update i d e)"
  unfolding keeps_def find_enemy_update_def Let_def
  using wr by (auto split: option.splits prod.splits)

lemma find_closest_keeps:
  assumes wr: "\<And>st x. P st \<Longrightarrow> P (bb_write i (VEntity x) e st)"
  shows "keeps P Q (find_closest_update q i d e)"
  unfolding keeps_def find_closest_update_def Let_def
  using wr by (auto split: option.splits prod.splits)

lemma find_waypoint_keeps:
  assumes wr: "\<And>st x. P st \<Longrightarrow> P (bb_write i (VEntity x) e st)"
    and wp: "\<And>st c. P st \<Longrightarrow> P (st\<lparr>world := (world st)\<lparr>cur_wp := c\<rparr>\<rparr>)"
  shows "keeps P Q (find_waypoint_update i e)"
  unfolding keeps_def find_waypoint_update_def Let_def
  using wr wp by (auto split: option.splits)

lemma flee_keeps:
  assumes act: "\<And>st a. P st \<Longrightarrow> P (set_action e a st)"
    and rd: "\<And>st err. P st \<Longrightarrow> bb_read TEntity i e st = Inl err \<Longrightarrow> Q err"
  shows "keeps P Q (flee_update i e)"
  unfolding keeps_def flee_update_def Let_def
  using act rd by (auto split: option.splits sum.splits)

lemma patrol_keeps:
  assumes act: "\<And>st a. P st \<Longrightarrow> P (set_action e a st)"
    and rd: "\<And>st err. P st \<Longrightarrow> bb_read TPosition i e st = Inl err \<Longrightarrow> Q err"
    and rnd: "\<And>st. P st \<Longrightarrow> P (snd (random_move st))"
  shows "keeps P Q (patrol_update i d e)"
  unfolding keeps_def patrol_update_def Let_def
  using act rd rnd by (fastforce split: option.splits sum.splits prod.splits)

lemma random_walk_keeps:
  assumes act: "\<And>st a. P st \<Longrightarrow> P (set_action e a st)"
    and rnd: "\<And>st. P st \<Longrightarrow> P (snd (random_move st))"
  shows "keeps P Q (random_walk_update e)"
  unfolding keeps_def random_walk_update_def
  using act rnd by (fastforce split: option.splits prod.splits)

lemma patch_up_keeps:
  assumes act: "\<And>st a. P st \<Longrightarrow> P (set_action e a st)"
  shows "keeps P Q (patch_up_update h e)"
  unfolding keeps_def patch_up_update_def
  using act by (auto split: option.splits)

lemma alert_hoard_keeps:
  assumes rd: "\<And>st err. P st \<Longrightarrow> bb_read TEntity i e st = Inl err \<Longrightarrow> Q err"
    and trees: "\<And>st x n enemy. P st \<Longrightarrow> trees st x = Some n \<Longrightarrow>
                  rkeeps P Q (react n x \<lparr>ev_type = HoardAlert, ev_data = enemy\<rparr>)"
  shows "keeps P Q (alert_hoard_update d i e)"
proof (rule keepsI)
  fix st assume P: "P st"
  show "case alert_hoard_update d i e st of Inl err \<Rightarrow> Q err | Inr (_, s') \<Rightarrow> P s'"
  proof (cases "bb_read TEntity i e st")
    case (Inl err)
    then show ?thesis using rd [OF P] by (simp add: alert_hoard_update_def)
  next
    case (Inr v)
    have t: "\<And>st x n. P st \<Longrightarrow> trees st x = Some n \<Longrightarrow>
        rkeeps P Q (react n x \<lparr>ev_type = HoardAlert, ev_data = the_entity v\<rparr>)"
      by (rule trees)
    show ?thesis
    proof (cases "\<not> is_valid (world st) (the_entity v) \<or> \<not> is_alive (world st) (the_entity v)")
      case True
      then show ?thesis using Inr P by (simp add: alert_hoard_update_def Let_def)
    next
      case False
      show ?thesis
      proof (cases "pos (world st) e")
        case None
        then show ?thesis using Inr P False by (simp add: alert_hoard_update_def Let_def)
      next
        case (Some p)
        have "case alert_loop d p (the_entity v) (ents (world st)) st of
                Inl err \<Rightarrow> Q err | Inr st' \<Rightarrow> P st'"
          by (rule alert_loop_keeps [OF t P])
        then show ?thesis using Inr False Some
          by (simp add: alert_hoard_update_def Let_def split: sum.splits)
      qed
    qed
  qed
qed


lemma hoard_listener_keeps:
  assumes wr: "\<And>st x. P st \<Longrightarrow> P (bb_write t (VEntity x) e st)"
    and wf: "\<And>st. P st \<Longrightarrow> P (bb_write f (VBool True) e st)"
  shows "rkeeps P Q (hoard_listener_react t f e ev)"
  unfolding rkeeps_def hoard_listener_react_def using wr wf by simp

section \<open>Ticking keeps the frame\<close>

lemma draws_ok_simps [simp]:
  "draws_ok (set_action e a st) = draws_ok st"
  "draws_ok (bb_write i v e st) = draws_ok st"
  "draws_ok (st\<lparr>world := w\<rparr>) = draws_ok st"
  "draws_ok (snd (random_move st)) = draws_ok st"
  "draws_ok (snd (std_draw st)) = draws_ok st"
  "draws_ok (st\<lparr>utils := u\<rparr>) = draws_ok st"
  by (simp_all add: draws_ok_def set_action_def bb_write_def random_move_def std_draw_def)

lemma same_frame_closed [simp]:
  "same_frame st0 st \<Longrightarrow> same_frame st0 (set_action e a st)"
  "same_frame st0 st \<Longrightarrow> same_frame st0 (bb_write i v e st)"
  "same_frame st0 st \<Longrightarrow> same_frame st0 (st\<lparr>world := (world st)\<lparr>cur_wp := c\<rparr>\<rparr>)"
  "same_frame st0 st \<Longrightarrow> same_frame st0 (snd (random_move st))"
  "same_frame st0 st \<Longrightarrow> same_frame st0 (snd (std_draw st))"
  "same_frame st0 st \<Longrightarrow> same_frame st0 (st\<lparr>utils := u\<rparr>)"
  by (simp_all add: same_frame_def frame_of_def set_action_def bb_write_def random_move_def std_draw_def)

lemma bb_read_Inl: "bb_read t i e st = Inl err \<Longrightarrow> \<exists>b. err = BBError b"
  by (auto simp: bb_read_def split: sum.splits)

lemma std_draw_below: "draws_ok st \<Longrightarrow> fst (std_draw st) < 1"
  by (simp add: draws_ok_def std_draw_def)

lemma react_keeps_frame:
  "rkeeps (\<lambda>st. same_frame orig st \<and> draws_ok st) (\<lambda>err. err \<noteq> SamplerDiverges) (react n e ev)"
  by (rule react_keeps [where G = "\<lambda>_. True"]) (auto intro!: hoard_listener_keeps)

lemma tick_keeps_frame:
  "keeps (\<lambda>st. same_frame orig st \<and> draws_ok st) (\<lambda>err. err \<noteq> SamplerDiverges) (tick n e)"
proof (rule tick_keeps [where G = "\<lambda>_. True"])
  fix n e assume "\<not> composite n"
  then show "keeps (\<lambda>st. same_frame orig st \<and> draws_ok st) (\<lambda>err. err \<noteq> SamplerDiverges) (tick n e)"
    by (cases n)
       (auto intro!: move_to_entity_keeps is_low_hp_keeps find_enemy_keeps find_closest_keeps
          find_waypoint_keeps flee_keeps patrol_keeps random_walk_keeps patch_up_keeps
          alert_hoard_keeps react_keeps_frame dest: bb_read_Inl)
qed (simp_all add: std_draw_below)


section \<open>Ticking well-typed trees keeps the blackboards well typed\<close>

lemma state_wf_simps [simp]:
  "state_wf (set_action e a st) = state_wf st"
  "state_wf (st\<lparr>world := w\<rparr>) = state_wf st"
  "state_wf (snd (random_move st)) = state_wf st"
  "state_wf (snd (std_draw st)) = state_wf st"
  "state_wf (st\<lparr>utils := u\<rparr>) = state_wf st"
  by (simp_all add: state_wf_def draws_ok_def set_action_def random_move_def std_draw_def)

lemma state_wf_bb_write:
  "state_wf st \<Longrightarrow> slot_ok (names st) (type_of_value v) i \<Longrightarrow> state_wf (bb_write i v e st)"
  by (auto simp: state_wf_def draws_ok_def bb_write_def slot_ok_def intro: bb_wf_set)

lemma bb_read_wf:
  assumes "state_wf st" "slot_ok (names st) t i" "bb_read t i e st = Inl err"
  shows "err = BBError Unset"
proof -
  have wf: "bb_wf (names st) (bbs st e)" using assms(1) by (simp add: state_wf_def)
  show ?thesis
  proof (cases "bbs st e i")
    case None
    then show ?thesis using assms(2,3) by (simp add: bb_read_def bb_get_def slot_ok_def)
  next
    case (Some v)
    then have "type_of_value v = t" using wf assms(2) by (simp add: bb_wf_def slot_ok_def)
    then show ?thesis using assms(3) bb_wf_get [OF wf Some] by (simp add: bb_read_def)
  qed
qed

lemma react_keeps_wf:
  "node_wf N n \<Longrightarrow>
   rkeeps (\<lambda>st. state_wf st \<and> names st = N) (\<lambda>err. err = BBError Unset) (react n e ev)"
  by (rule react_keeps [where G = "node_wf N"])
     (auto intro!: hoard_listener_keeps state_wf_bb_write intro: node_wf_children)

lemma tick_keeps_wf:
  "node_wf N n \<Longrightarrow>
   keeps (\<lambda>st. state_wf st \<and> names st = N) (\<lambda>err. err = BBError Unset) (tick n e)"
proof (rule tick_keeps [where G = "node_wf N"])
  fix n e assume "node_wf N n" "\<not> composite n"
  moreover have "\<And>st x n. state_wf st \<and> names st = N \<Longrightarrow> trees st x = Some n \<Longrightarrow> node_wf N n"
    by (auto simp: state_wf_def)
  ultimately show "keeps (\<lambda>st. state_wf st \<and> names st = N) (\<lambda>err. err = BBError Unset) (tick n e)"
    by (cases n)
       (auto intro!: move_to_entity_keeps is_low_hp_keeps find_enemy_keeps find_closest_keeps
          find_waypoint_keeps flee_keeps patrol_keeps random_walk_keeps patch_up_keeps
          alert_hoard_keeps react_keeps_wf state_wf_bb_write intro: bb_read_wf)
qed (auto simp: state_wf_def intro: node_wf_children std_draw_below)


section \<open>Properties of ticks\<close>

text \<open>
  C26: ticking a tree whose slots are registered with the types its nodes use,
  from a state where every blackboard is well typed, either fails only because a
  slot was read before it was ever set, or returns in a state where every
  blackboard is still well typed: no read with the wrong type, no read of an
  unregistered slot, no diverging sampler.
\<close>

theorem tick_well_typed:
  assumes "state_wf st" "node_wf (names st) n"
  shows "case tick n e st of
           Inl err \<Rightarrow> err = BBError Unset
         | Inr (_, st') \<Rightarrow> state_wf st' \<and> names st' = names st"
  using keepsD [OF tick_keeps_wf [OF assms(2)]] assms(1) by simp

theorem tick_well_typed_witness:
  "case tick (Sequence [FindEnemy 0 3, MoveToEntity 0]) 1
          (demo_state (Sequence [FindEnemy 0 3, MoveToEntity 0])) of
     Inl err \<Rightarrow> err = BBError Unset
   | Inr (_, st') \<Rightarrow> state_wf st' \<and>
       names st' = names (demo_state (Sequence [FindEnemy 0 3, MoveToEntity 0]))"
  by (rule tick_well_typed)
     (auto simp: state_wf_def draws_ok_def bb_wf_def demo_state_def slot_ok_def)

text \<open>
  C27: a tick changes neither the name table nor any entity's tree nor any
  component of the world other than \<open>Action\<close> and \<open>CurrentWaypoint\<close>:
  positions, hitpoints and the set of live entities change only in the turn loop.
\<close>

theorem tick_frame:
  assumes "draws_ok st" "tick n e st = Inr (r, st')"
  shows "names st' = names st \<and> trees st' = trees st \<and>
         world st' = (world st)\<lparr>act := act (world st'), cur_wp := cur_wp (world st')\<rparr>"
proof -
  have "same_frame st st'"
    using keeps_Inr [OF tick_keeps_frame [where orig = st] _ assms(2)] assms(1)
    by (simp add: same_frame_def)
  then show ?thesis
    by (cases "world st", cases "world st'") (simp add: same_frame_def frame_of_def)
qed

theorem tick_frame_witness:
  "names (snd (projr (tick (Sequence [FindEnemy 0 3, MoveToEntity 0]) 1
                (demo_state (Sequence [FindEnemy 0 3, MoveToEntity 0]))))) = [(''attack_enemy'', TEntity)]"
proof -
  obtain r st' where t: "tick (Sequence [FindEnemy 0 3, MoveToEntity 0]) 1
      (demo_state (Sequence [FindEnemy 0 3, MoveToEntity 0])) = Inr (r, st')"
    by (simp add: demo_state_def demo_world_def find_enemy_update_def move_to_entity_update_def
        enemy_filter_def dist_pos_def FLT_MAX_def is_valid_def is_alive_def bb_write_def bb_set_def
        bb_read_def bb_get_def set_action_def Let_def)
  have d: "draws_ok (demo_state (Sequence [FindEnemy 0 3, MoveToEntity 0]))"
    by (simp add: draws_ok_def demo_state_def)
  show ?thesis using tick_frame [OF d t] t by (simp add: demo_state_def)
qed

text \<open>
  C28: when every draw of the engine lies in [0, 1), as
  \<open>uniform_real_distribution(0, 1)\<close> guarantees, a tick of any tree returns:
  no utility selector's sampler diverges.
\<close>

theorem tick_returns: "draws_ok st \<Longrightarrow> tick n e st \<noteq> Inl SamplerDiverges"
  using keeps_Inl [OF tick_keeps_frame [where orig = st]] by (auto simp: same_frame_def)

theorem tick_returns_witness:
  "tick (UtilitySelector 0 [(0, RandomWalk, \<lambda>_. 1, ''walk'')]) 1
     (demo_state RandomWalk) \<noteq> Inl SamplerDiverges"
  by (rule tick_returns) (simp add: draws_ok_def demo_state_def)


section \<open>Event dispatch\<close>

text \<open>
  C29: dispatching an event to a tree is delivering it to the tree's listeners
  one after the other, in depth-first order: every composite forwards to every
  child whatever its update would return, and a \<open>UtilitySelector\<close> (which keeps
  the default \<open>react\<close>) hides the listeners below it.
\<close>

theorem react_listeners:
  "react n e ev st = react_all (map (\<lambda>(t, f). hoard_listener_react t f e ev) (listeners n)) st"
proof (induction n e ev arbitrary: st rule: react.induct)
  case (1 cs e ev)
  then show ?case by (simp add: react_all_concat)
next
  case (2 cs e ev)
  then show ?case by (simp add: react_all_concat)
next
  case (3 cs e ev)
  then show ?case by (simp add: react_all_concat)
next
  case (4 cs e ev)
  then show ?case by (simp add: react_all_concat)
next
  case (5 c e ev)
  then show ?case by (simp only: react.simps listeners.simps react_all_single)
next
  case (6 t f e ev)
  then show ?case by (simp add: hoard_listener_react_def)
qed simp_all

theorem react_listeners_witness:
  "react (Sequence [HoardListener 0 1, IsLowHp 50, Selector [HoardListener 2 3]]) 1
      \<lparr>ev_type = HoardAlert, ev_data = 7\<rparr> (demo_state RandomWalk) =
   Inr (bb_write 2 (VEntity 7) 1 (bb_write 3 (VBool True) 1
          (bb_write 0 (VEntity 7) 1 (bb_write 1 (VBool True) 1 (demo_state RandomWalk)))))"
  unfolding react_listeners by (simp add: hoard_listener_react_def)

end
