(* ===== verification/Turn.thy ===== *)
theory Turn
  imports Actions Tree_Invariants
begin

text \<open>
  \<open>process_turn\<close> of src/w2/roguelike.cpp: when the player acted, advance the
  player's counter; when it wrapped, run every NPC's behaviour tree
  (\<open>behTreeUpdate.each\<close> inside \<open>ecs.defer\<close>: the trees only write components,
  so deferral changes nothing); then resolve the actions. The NPCs'
  \<open>StateMachine\<close>s are created empty by \<open>create_npc\<close>, so
  \<open>stateMachineAct\<close> does nothing.
\<close>

datatype turn_error = TreeError bt_error | ZeroNumActions

text \<open>\<open>behTreeUpdate.each\<close>: \<open>bt.update\<close> on every entity with a tree.\<close>

fun trees_loop :: "eid list \<Rightarrow> ai_state \<Rightarrow> bt_error + ai_state" where
  "trees_loop [] st = Inr st"
| "trees_loop (e # es) st =
     (case trees st e of
        None \<Rightarrow> trees_loop es st
      | Some _ \<Rightarrow> (case tree_update e st of Inl err \<Rightarrow> Inl err | Inr st' \<Rightarrow> trees_loop es st'))"

definition process_turn :: "ai_state \<Rightarrow> turn_error + ai_state" where
  "process_turn st =
     (if is_player_acted (world st) then
        (case upd_player_actions_count (world st) of
           None \<Rightarrow> Inl ZeroNumActions
         | Some (reached, w') \<Rightarrow>
             (case (if reached then trees_loop (ents w') (st\<lparr>world := w'\<rparr>) else Inr (st\<lparr>world := w'\<rparr>)) of
                Inl err \<Rightarrow> Inl (TreeError err)
              | Inr st2 \<Rightarrow> Inr (st2\<lparr>world := process_actions (world st2)\<rparr>)))
      else Inr st)"

text \<open>The invariant of the game state a turn keeps.\<close>

definition turn_inv :: "ai_state \<Rightarrow> bool" where
  "turn_inv st \<longleftrightarrow> draws_ok st \<and> world_inv (world st)"

text \<open>Witness states: \<open>demo_state n\<close> after the player pressed left, with its
  counter at \<open>c\<close> of 2.\<close>

definition acted_state :: "node \<Rightarrow> int \<Rightarrow> ai_state" where
  "acted_state n c = (demo_state n)\<lparr>world := demo_world\<lparr>act := [1 \<mapsto> EA_NOP, 2 \<mapsto> EA_MOVE_LEFT],
     num_acts := [2 \<mapsto> \<lparr>numActions = 2, curActions = c\<rparr>]\<rparr>\<rparr>"

section \<open>Trees keep the world's invariants\<close>

lemma frame_of_world_inv: "frame_of w' = frame_of w \<Longrightarrow> world_inv w' = world_inv w"
proof -
  assume "frame_of w' = frame_of w"
  then have "ents w' = ents w \<and> pos w' = pos w \<and> move_to w' = move_to w \<and> hitpoints w' = hitpoints w \<and>
    team w' = team w \<and> is_player w' = is_player w \<and> num_acts w' = num_acts w"
    unfolding frame_of_def by (cases w, cases w') simp
  then show ?thesis
    by (simp add: world_inv_def cells_distinct_def movers_wf_def pos_sync_def counters_ok_def)
qed

lemma same_frame_trans: "same_frame a b \<Longrightarrow> same_frame b c \<Longrightarrow> same_frame a c"
  by (simp add: same_frame_def)

lemma tree_update_tick:
  "tree_update e st = Inr st' \<Longrightarrow> trees st e = Some n \<Longrightarrow> \<exists>r. tick n e st = Inr (r, st')"
  by (cases "tick n e st") (auto simp: tree_update_def)

lemma tree_update_frame:
  assumes "draws_ok st" "tree_update e st = Inr st'"
  shows "same_frame st st' \<and> draws_ok st'"
proof (cases "trees st e")
  case None
  then show ?thesis using assms by (simp add: tree_update_def same_frame_def)
next
  case (Some n)
  then obtain r where r: "tick n e st = Inr (r, st')" using tree_update_tick assms(2) by blast
  have "same_frame st st \<and> draws_ok st" using assms(1) by (simp add: same_frame_def)
  then show ?thesis using keeps_Inr [OF tick_keeps_frame _ r] by blast
qed

lemma trees_loop_frame:
  "draws_ok st \<Longrightarrow> trees_loop es st = Inr st' \<Longrightarrow> same_frame st st' \<and> draws_ok st'"
proof (induction es arbitrary: st)
  case Nil
  then show ?case by (simp add: same_frame_def)
next
  case (Cons e es)
  show ?case
  proof (cases "trees st e")
    case None
    then show ?thesis using Cons by simp
  next
    case (Some n)
    then obtain st1 where t: "tree_update e st = Inr st1" "trees_loop es st1 = Inr st'"
      using Cons.prems(2) by (cases "tree_update e st") simp_all
    note f = tree_update_frame [OF Cons.prems(1) t(1)]
    have "same_frame st1 st' \<and> draws_ok st'" using Cons.IH [OF conjunct2 [OF f] t(2)] .
    then show ?thesis using same_frame_trans [OF conjunct1 [OF f]] by simp
  qed
qed

section \<open>Well-typed trees keep the blackboards well typed\<close>

lemma draws_ok_world [simp]: "draws_ok (st\<lparr>world := w\<rparr>) = draws_ok st"
  by (simp add: draws_ok_def)

lemma state_wf_world [simp]: "state_wf (st\<lparr>world := w\<rparr>) = state_wf st"
  by (simp add: state_wf_def)

lemma tree_update_wf:
  assumes "state_wf st"
  shows "case tree_update e st of Inl err \<Rightarrow> err = BBError Unset | Inr st' \<Rightarrow> state_wf st'"
proof (cases "trees st e")
  case None
  then show ?thesis using assms by (simp add: tree_update_def)
next
  case (Some n)
  then have "node_wf (names st) n" using assms by (simp add: state_wf_def)
  then have "case tick n e st of Inl err \<Rightarrow> err = BBError Unset | Inr (_, st') \<Rightarrow> state_wf st' \<and> names st' = names st"
    using keepsD [OF tick_keeps_wf] assms by blast
  then show ?thesis using Some by (cases "tick n e st") (auto simp: tree_update_def)
qed

lemma trees_loop_wf:
  "state_wf st \<Longrightarrow> case trees_loop es st of Inl err \<Rightarrow> err = BBError Unset | Inr st' \<Rightarrow> state_wf st'"
proof (induction es arbitrary: st)
  case Nil
  then show ?case by simp
next
  case (Cons e es)
  show ?case
  proof (cases "trees st e")
    case None
    then show ?thesis using Cons by simp
  next
    case (Some n)
    show ?thesis
    proof (cases "tree_update e st")
      case (Inl err)
      then show ?thesis using tree_update_wf [OF Cons.prems, of e] Some by simp
    next
      case (Inr st1)
      then have "state_wf st1" using tree_update_wf [OF Cons.prems, of e] by simp
      then show ?thesis using Cons.IH [of st1] Some Inr by simp
    qed
  qed
qed

section \<open>The steps of a turn\<close>

lemma process_turn_Inr:
  assumes "process_turn st = Inr st'"
  shows "st' = st \<or>
    (\<exists>r w' st2. upd_player_actions_count (world st) = Some (r, w') \<and>
       (if r then trees_loop (ents w') (st\<lparr>world := w'\<rparr>) = Inr st2 else st2 = st\<lparr>world := w'\<rparr>) \<and>
       st' = st2\<lparr>world := process_actions (world st2)\<rparr>)"
  using assms unfolding process_turn_def
  by (auto split: if_splits option.splits sum.splits)

lemma process_turn_Inl:
  assumes "process_turn st = Inl err"
  shows "upd_player_actions_count (world st) = None \<and> err = ZeroNumActions \<or>
    (\<exists>w' e. upd_player_actions_count (world st) = Some (True, w') \<and>
       trees_loop (ents w') (st\<lparr>world := w'\<rparr>) = Inl e \<and> err = TreeError e)"
  using assms unfolding process_turn_def
  by (auto split: if_splits option.splits sum.splits)

section \<open>Properties of a turn\<close>

text \<open>A turn keeps the invariants of the game state.\<close>

lemma process_turn_inv:
  assumes "turn_inv st" "process_turn st = Inr st'"
  shows "turn_inv st'"
  using process_turn_Inr [OF assms(2)]
proof
  assume "st' = st"
  then show ?thesis using assms(1) by simp
next
  assume "\<exists>r w' st2. upd_player_actions_count (world st) = Some (r, w') \<and>
       (if r then trees_loop (ents w') (st\<lparr>world := w'\<rparr>) = Inr st2 else st2 = st\<lparr>world := w'\<rparr>) \<and>
       st' = st2\<lparr>world := process_actions (world st2)\<rparr>"
  then obtain r w' st2 where u: "upd_player_actions_count (world st) = Some (r, w')"
    and t: "if r then trees_loop (ents w') (st\<lparr>world := w'\<rparr>) = Inr st2 else st2 = st\<lparr>world := w'\<rparr>"
    and s: "st' = st2\<lparr>world := process_actions (world st2)\<rparr>" by blast
  have i1: "turn_inv (st\<lparr>world := w'\<rparr>)"
    using upd_player_inv [OF _ u] assms(1) by (simp add: turn_inv_def)
  have "turn_inv st2"
  proof (cases r)
    case True
    then have "same_frame (st\<lparr>world := w'\<rparr>) st2 \<and> draws_ok st2"
      using trees_loop_frame [of "st\<lparr>world := w'\<rparr>" "ents w'" st2] t i1 by (simp add: turn_inv_def)
    then have "frame_of (world st2) = frame_of w'" "draws_ok st2" by (simp_all add: same_frame_def)
    then show ?thesis using i1 frame_of_world_inv [of "world st2" w'] by (simp add: turn_inv_def)
  next
    case False
    then show ?thesis using t i1 by simp
  qed
  then show ?thesis using s process_actions_inv by (simp add: turn_inv_def)
qed

text \<open>C34: with well-typed trees and the player's counter in range, the only
  way a turn fails is a tree reading a blackboard entry that was never written:
  no division by zero, no wrong type, no sampler that never returns.\<close>

theorem process_turn_errors:
  assumes "state_wf st" "counters_ok (world st)" "process_turn st = Inl err"
  shows "err = TreeError (BBError Unset)"
  using process_turn_Inl [OF assms(3)]
proof
  assume "upd_player_actions_count (world st) = None \<and> err = ZeroNumActions"
  then show ?thesis using upd_counters_ok [OF assms(2)] by simp
next
  assume "\<exists>w' e. upd_player_actions_count (world st) = Some (True, w') \<and>
       trees_loop (ents w') (st\<lparr>world := w'\<rparr>) = Inl e \<and> err = TreeError e"
  then obtain w' e where "trees_loop (ents w') (st\<lparr>world := w'\<rparr>) = Inl e" "err = TreeError e" by blast
  then show ?thesis using trees_loop_wf [of "st\<lparr>world := w'\<rparr>" "ents w'"] assms(1) by simp
qed

theorem process_turn_errors_witness:
  "state_wf (acted_state (MoveToEntity 0) 1) \<and> counters_ok (world (acted_state (MoveToEntity 0) 1)) \<and>
   process_turn (acted_state (MoveToEntity 0) 1) = Inl (TreeError (BBError Unset))"
proof -
  have h: "state_wf (acted_state (MoveToEntity 0) 1)" "counters_ok (world (acted_state (MoveToEntity 0) 1))"
    by (simp_all add: state_wf_def draws_ok_def bb_wf_def slot_ok_def counters_ok_def counter_ok_def
        acted_state_def demo_state_def demo_world_def)
  have t: "process_turn (acted_state (MoveToEntity 0) 1) = Inl (TreeError (BBError Unset))"
    by (simp add: process_turn_def is_player_acted_def upd_player_actions_count_def acted_state_def
        demo_state_def demo_world_def smod_int_alt_def tree_update_def move_to_entity_update_def
        bb_read_def bb_get_def)
  show ?thesis using h t process_turn_errors [OF h t] by simp
qed

end
