(* ===== verification/Build.thy ===== *)
theory Build
  imports Tree_Invariants "HOL-Library.Sublist"
begin

text \<open>
  Tree construction: the factories of src/w2/behLibrary.cpp and
  src/w3/behLibrary.cpp, the leaf constructors that register their blackboard
  variables, and the four behaviours of src/w2/roguelike.cpp. A factory call
  \<open>f({b\<^sub>1, ..., b\<^sub>n})\<close> evaluates its braced argument list left to right, so
  a \<open>builder\<close> is a state transformer returning the node it built, and
  \<open>with_nodes\<close> runs the builders of the children in order. Registration
  (\<open>reg_entity_blackboard_var\<close>, in \<open>blackboard.h\<close>, not among the sources)
  follows the spec: the process-wide table of Blackboard.
\<close>

section \<open>Registration and the factories\<close>

type_synonym builder = "ai_state \<Rightarrow> node \<times> ai_state"

text \<open>\<open>reg_entity_blackboard_var<T>(entity, bb_name)\<close>: the slot of the name in
  the process-wide table, registered with type \<open>T\<close> on first use.\<close>

definition reg_var :: "bb_type \<Rightarrow> eid \<Rightarrow> string \<Rightarrow> ai_state \<Rightarrow> nat \<times> ai_state" where
  "reg_var t e bb_name st = (case bb_register bb_name t (names st) of (i, tbl) \<Rightarrow> (i, st\<lparr>names := tbl\<rparr>))"

text \<open>\<open>CompoundNode::pushNode\<close>.\<close>

fun push_node :: "node \<Rightarrow> node \<Rightarrow> node" where
  "push_node (Sequence ns) n = Sequence (ns @ [n])"
| "push_node (Selector ns) n = Selector (ns @ [n])"
| "push_node (OrNode ns) n = OrNode (ns @ [n])"
| "push_node (Parallel ns) n = Parallel (ns @ [n])"
| "push_node m n = m"

definition sequence :: "node list \<Rightarrow> node" where
  "sequence nodes = foldl push_node (Sequence []) nodes"

definition selector :: "node list \<Rightarrow> node" where
  "selector nodes = foldl push_node (Selector []) nodes"

definition or_node :: "node list \<Rightarrow> node" where
  "or_node nodes = OrNode nodes"

definition not_node :: "node \<Rightarrow> node" where
  "not_node node = NotNode node"

definition parallel :: "node list \<Rightarrow> node" where
  "parallel nodes = Parallel nodes"

text \<open>\<open>utility_selector\<close> (w3): \<open>uid\<close> is the new selector's address, and each
  entry's first component its child's.\<close>

definition utility_selector ::
  "nat \<Rightarrow> (nat \<times> node \<times> (blackboard \<Rightarrow> real) \<times> string) list \<Rightarrow> node" where
  "utility_selector uid nodes = UtilitySelector uid nodes"

section \<open>The leaf constructors\<close>

definition move_to_entity :: "eid \<Rightarrow> string \<Rightarrow> builder" where
  "move_to_entity e bb_name st =
     (case reg_var TEntity e bb_name st of (entityBb, st') \<Rightarrow> (MoveToEntity entityBb, st'))"

definition is_low_hp :: "real \<Rightarrow> builder" where
  "is_low_hp thres st = (IsLowHp thres, st)"

definition find_enemy :: "eid \<Rightarrow> real \<Rightarrow> string \<Rightarrow> builder" where
  "find_enemy e in_dist bb_name st =
     (case reg_var TEntity e bb_name st of (entityBb, st') \<Rightarrow> (FindEnemy entityBb in_dist, st'))"

definition find_closest_of :: "query_kind \<Rightarrow> eid \<Rightarrow> real \<Rightarrow> string \<Rightarrow> builder" where
  "find_closest_of q e in_dist bb_name st =
     (case reg_var TEntity e bb_name st of (entityBb, st') \<Rightarrow> (FindClosestOf q entityBb in_dist, st'))"

definition find_powerup :: "eid \<Rightarrow> real \<Rightarrow> string \<Rightarrow> builder" where
  "find_powerup e d bb_name = find_closest_of QPowerup e d bb_name"

definition find_heal :: "eid \<Rightarrow> real \<Rightarrow> string \<Rightarrow> builder" where
  "find_heal e d bb_name = find_closest_of QHeal e d bb_name"

definition find_waypoint :: "eid \<Rightarrow> string \<Rightarrow> builder" where
  "find_waypoint e bb_name st =
     (case reg_var TEntity e bb_name st of (entityBb, st') \<Rightarrow> (FindWaypoint entityBb, st'))"

definition flee :: "eid \<Rightarrow> string \<Rightarrow> builder" where
  "flee e bb_name st =
     (case reg_var TEntity e bb_name st of (entityBb, st') \<Rightarrow> (Flee entityBb, st'))"

text \<open>\<open>Patrol\<close>'s constructor also stores the entity's position as the patrol point.\<close>

definition patrol :: "eid \<Rightarrow> real \<Rightarrow> string \<Rightarrow> builder" where
  "patrol e patrol_dist bb_name st =
     (case reg_var TPosition e bb_name st of
        (pposBb, st') \<Rightarrow>
          (Patrol pposBb patrol_dist,
           case pos (world st') e of
             Some p \<Rightarrow> bb_write pposBb (VPosition p) e st'
           | None \<Rightarrow> st'))"

text \<open>\<open>HoardListener\<close>'s constructor registers its target and its flag under the
  same name, then clears the flag.\<close>

definition hoard_listener :: "eid \<Rightarrow> string \<Rightarrow> builder" where
  "hoard_listener e bb_name st =
     (case reg_var TEntity e bb_name st of
        (target_index, st1) \<Rightarrow>
          (case reg_var TBool e bb_name st1 of
             (flag_index, st2) \<Rightarrow>
               (HoardListener target_index flag_index, bb_write flag_index (VBool False) e st2)))"

definition alert_hoard :: "eid \<Rightarrow> real \<Rightarrow> string \<Rightarrow> builder" where
  "alert_hoard e alert_dist bb_name st =
     (case reg_var TEntity e bb_name st of (m_bb_index, st') \<Rightarrow> (AlertHoard alert_dist m_bb_index, st'))"

definition patch_up :: "real \<Rightarrow> builder" where
  "patch_up thres st = (PatchUp thres, st)"

definition random_walk :: builder where
  "random_walk st = (RandomWalk, st)"

section \<open>Composing builders\<close>

fun build_all :: "builder list \<Rightarrow> ai_state \<Rightarrow> node list \<times> ai_state" where
  "build_all [] st = ([], st)"
| "build_all (b # bs) st =
     (case b st of (n, st') \<Rightarrow> (case build_all bs st' of (ns, st'') \<Rightarrow> (n # ns, st'')))"

text \<open>\<open>f({b\<^sub>1, ..., b\<^sub>n})\<close>.\<close>

definition with_nodes :: "(node list \<Rightarrow> node) \<Rightarrow> builder list \<Rightarrow> builder" where
  "with_nodes f bs st = (case build_all bs st of (ns, st') \<Rightarrow> (f ns, st'))"

text \<open>\<open>e.set(Blackboard{})\<close>, then \<open>e.set(BehaviourTree{root})\<close> after the
  root is built.\<close>

definition install_tree :: "eid \<Rightarrow> builder \<Rightarrow> ai_state \<Rightarrow> ai_state" where
  "install_tree e build_root st =
     (case build_root (st\<lparr>bbs := (bbs st)(e := Map.empty)\<rparr>) of
        (r, st') \<Rightarrow> st'\<lparr>trees := (trees st')(e \<mapsto> r)\<rparr>)"

section \<open>Invariants of construction\<close>

text \<open>\<open>table_ext tbl tbl'\<close>: \<open>tbl'\<close> keeps every slot of \<open>tbl\<close> and stays free
  of duplicate names. \<open>names_agree tbl req\<close>: every name of \<open>req\<close> that is
  registered has the type \<open>req\<close> gives it.\<close>

definition table_ext :: "name_table \<Rightarrow> name_table \<Rightarrow> bool" where
  "table_ext tbl tbl' \<longleftrightarrow>
     prefix tbl tbl' \<and> (distinct (map fst tbl) \<longrightarrow> distinct (map fst tbl'))"

definition names_agree :: "name_table \<Rightarrow> (string \<times> bb_type) list \<Rightarrow> bool" where
  "names_agree tbl req \<longleftrightarrow>
     (\<forall>(n, t) \<in> set req. case slot_of n tbl of None \<Rightarrow> True | Some i \<Rightarrow> snd (tbl ! i) = t)"

definition builds_ext :: "builder \<Rightarrow> bool" where
  "builds_ext b \<longleftrightarrow> (\<forall>st. table_ext (names st) (names (snd (b st))))"

definition builds_wf :: "(string \<times> bb_type) list \<Rightarrow> builder \<Rightarrow> bool" where
  "builds_wf req b \<longleftrightarrow>
     (\<forall>st. names_agree (names st) req \<longrightarrow>
        names_agree (names (snd (b st))) req \<and> node_wf (names (snd (b st))) (fst (b st)))"

text \<open>The names the behaviours of src/w2/roguelike.cpp register, with the types
  their nodes read them at.\<close>

definition behaviour_names :: "(string \<times> bb_type) list" where
  "behaviour_names =
     [(''flee_enemy'', TEntity), (''attack_enemy'', TEntity), (''patrol_pos'', TPosition),
      (''gather_bonus'', TEntity), (''chosen entity'', TEntity), (''hoard provoker'', TEntity)]"

definition installed_wf :: "eid \<Rightarrow> ai_state \<Rightarrow> bool" where
  "installed_wf e st \<longleftrightarrow> (case trees st e of None \<Rightarrow> False | Some n \<Rightarrow> node_wf (names st) n)"

section \<open>The behaviours of src/w2/roguelike.cpp\<close>

definition create_minotaur_beh :: "eid \<Rightarrow> ai_state \<Rightarrow> ai_state" where
  "create_minotaur_beh e =
     install_tree e
       (with_nodes selector [
          with_nodes sequence [
            is_low_hp 50,
            find_enemy e 4 ''flee_enemy'',
            flee e ''flee_enemy''],
          with_nodes sequence [
            find_enemy e 3 ''attack_enemy'',
            move_to_entity e ''attack_enemy''],
          patrol e 2 ''patrol_pos''])"

definition create_gatherer_beh :: "eid \<Rightarrow> ai_state \<Rightarrow> ai_state" where
  "create_gatherer_beh e =
     install_tree e
       (with_nodes selector [
          with_nodes sequence [
            find_enemy e 2 ''attack_enemy'',
            move_to_entity e ''attack_enemy''],
          with_nodes sequence [
            with_nodes selector [
              find_powerup e 100 ''gather_bonus'',
              find_heal e 100 ''gather_bonus''],
            move_to_entity e ''gather_bonus''],
          with_nodes sequence [
            find_enemy e 200 ''attack_enemy'',
            move_to_entity e ''attack_enemy'']])"

definition create_hoard_beh :: "eid \<Rightarrow> ai_state \<Rightarrow> ai_state" where
  "create_hoard_beh e =
     install_tree e
       (with_nodes selector [
          hoard_listener e ''hoard provoker'',
          move_to_entity e ''hoard provoker'',
          with_nodes sequence [
            find_enemy e 2 ''hoard provoker'',
            alert_hoard e 100 ''hoard provoker''],
          patrol e 2 ''patrol_pos''])"

definition create_guard_beh :: "eid \<Rightarrow> ai_state \<Rightarrow> ai_state" where
  "create_guard_beh e =
     install_tree e
       (with_nodes selector [
          with_nodes sequence [
            with_nodes selector [
              find_enemy e 3 ''chosen entity'',
              find_waypoint e ''chosen entity''],
            move_to_entity e ''chosen entity'']])"


section \<open>Registration and the table\<close>

lemma table_ext_refl [simp]: "table_ext tbl tbl"
  by (simp add: table_ext_def)

lemma table_ext_trans: "table_ext a b \<Longrightarrow> table_ext b c \<Longrightarrow> table_ext a c"
  unfolding table_ext_def using prefix_order.trans by blast

lemma table_ext_register: "table_ext tbl (snd (bb_register n t tbl))"
  using bb_register_distinct_names [of tbl n t]
  by (auto simp: table_ext_def bb_register_def split: option.split)

lemma reg_var_fields [simp]:
  "bbs (snd (reg_var t e n st)) = bbs st" "world (snd (reg_var t e n st)) = world st"
  "trees (snd (reg_var t e n st)) = trees st"
  "names (snd (reg_var t e n st)) = snd (bb_register n t (names st))"
  "fst (reg_var t e n st) = fst (bb_register n t (names st))"
  by (simp_all add: reg_var_def split: prod.split)

text \<open>Registering the same name twice, whatever the types, gives the same slot.\<close>

lemma reg_var_twice:
  "fst (reg_var t' e n (snd (reg_var t e n st))) = fst (reg_var t e n st) \<and>
   names (snd (reg_var t' e n (snd (reg_var t e n st)))) = names (snd (reg_var t e n st))"
  using bb_register_idempotent [of n t' t "names st"] by simp

lemma slot_ok_ext: "prefix tbl tbl' \<Longrightarrow> slot_ok tbl t i \<Longrightarrow> slot_ok tbl' t i"
  by (auto simp: slot_ok_def prefix_def nth_append)

lemma node_wf_ext: "prefix tbl tbl' \<Longrightarrow> node_wf tbl n \<Longrightarrow> node_wf tbl' n"
  by (induction tbl n rule: node_wf.induct) (auto intro: slot_ok_ext)

lemma reg_var_agree:
  assumes "distinct (map fst req)" "(n, t) \<in> set req" "names_agree (names st) req"
  shows "names_agree (names (snd (reg_var t e n st))) req \<and>
         slot_ok (names (snd (reg_var t e n st))) t (fst (reg_var t e n st))"
proof (cases "slot_of n (names st)")
  case None
  obtain i tbl' where r: "bb_register n t (names st) = (i, tbl')" by fastforce
  then have tbl': "tbl' = names st @ [(n, t)]" "i = length (names st)"
    using None by (auto simp: bb_register_def)
  have "names_agree tbl' req"
    unfolding names_agree_def
  proof (intro ballI, clarify)
    fix m u assume mu: "(m, u) \<in> set req"
    show "case slot_of m tbl' of None \<Rightarrow> True | Some j \<Rightarrow> snd (tbl' ! j) = u"
    proof (cases "slot_of m (names st)")
      case (Some j)
      then have "snd (names st ! j) = u" "j < length (names st)"
        using assms(3) mu slot_of_Some [OF Some] by (auto simp: names_agree_def)
      then show ?thesis using Some by (simp add: tbl' slot_of_append nth_append)
    next
      case None
      have "m = n \<Longrightarrow> u = t" using assms(1,2) mu by (metis eq_key_imp_eq_value)
      then show ?thesis using None by (simp add: tbl' slot_of_append)
    qed
  qed
  then show ?thesis using r tbl' by (simp add: slot_ok_def)
next
  case (Some j)
  then have "bb_register n t (names st) = (j, names st)" by (simp add: bb_register_def)
  moreover have "snd (names st ! j) = t" using assms(2,3) Some by (force simp: names_agree_def)
  ultimately show ?thesis using assms(3) slot_of_Some [OF Some] by (simp add: slot_ok_def)
qed

section \<open>Builders keep the table\<close>

lemma sequence_eq [simp]: "sequence ns = Sequence ns"
proof -
  have "foldl push_node (Sequence xs) ns = Sequence (xs @ ns)" for xs
    by (induction ns arbitrary: xs) simp_all
  then show ?thesis by (simp add: sequence_def)
qed

lemma selector_eq [simp]: "selector ns = Selector ns"
proof -
  have "foldl push_node (Selector xs) ns = Selector (xs @ ns)" for xs
    by (induction ns arbitrary: xs) simp_all
  then show ?thesis by (simp add: selector_def)
qed

lemma build_all_Cons:
  "build_all (b # bs) st =
     (fst (b st) # fst (build_all bs (snd (b st))), snd (build_all bs (snd (b st))))"
  by (simp split: prod.split)

lemma with_nodes_eq: "with_nodes f bs st = (f (fst (build_all bs st)), snd (build_all bs st))"
  by (simp add: with_nodes_def split: prod.split)

lemma builds_ext_reg:
  "(\<And>st. names (snd (b st)) = names (snd (reg_var t e n st))) \<Longrightarrow> builds_ext b"
  by (simp add: builds_ext_def table_ext_register)

lemma builds_ext_pure: "(\<And>st. names (snd (b st)) = names st) \<Longrightarrow> builds_ext b"
  by (simp add: builds_ext_def)

lemma builds_ext_leaves:
  "builds_ext (move_to_entity e n)" "builds_ext (is_low_hp x)" "builds_ext (find_enemy e d n)"
  "builds_ext (find_closest_of q e d n)" "builds_ext (find_powerup e d n)" "builds_ext (find_heal e d n)"
  "builds_ext (find_waypoint e n)" "builds_ext (flee e n)" "builds_ext (patrol e d n)"
  "builds_ext (hoard_listener e n)" "builds_ext (alert_hoard e d n)" "builds_ext (patch_up x)"
  "builds_ext random_walk"
  apply (rule builds_ext_reg [where t = TEntity and n = n], simp add: move_to_entity_def case_prod_beta)
  apply (rule builds_ext_pure, simp add: is_low_hp_def)
  apply (rule builds_ext_reg [where t = TEntity and n = n], simp add: find_enemy_def case_prod_beta)
  apply (rule builds_ext_reg [where t = TEntity and n = n], simp add: find_closest_of_def case_prod_beta)
  apply (rule builds_ext_reg [where t = TEntity and n = n], simp add: find_powerup_def find_closest_of_def case_prod_beta)
  apply (rule builds_ext_reg [where t = TEntity and n = n], simp add: find_heal_def find_closest_of_def case_prod_beta)
  apply (rule builds_ext_reg [where t = TEntity and n = n], simp add: find_waypoint_def case_prod_beta)
  apply (rule builds_ext_reg [where t = TEntity and n = n], simp add: flee_def case_prod_beta)
  apply (rule builds_ext_reg [where t = TPosition and n = n], simp add: patrol_def case_prod_beta split: option.split)
  apply (rule builds_ext_reg [where t = TEntity and n = n], simp add: hoard_listener_def case_prod_beta bb_register_idempotent)
  apply (rule builds_ext_reg [where t = TEntity and n = n], simp add: alert_hoard_def case_prod_beta)
  apply (rule builds_ext_pure, simp add: patch_up_def)
  apply (rule builds_ext_pure, simp add: random_walk_def)
  done

lemma build_all_ext:
  "\<forall>b \<in> set bs. builds_ext b \<Longrightarrow> table_ext (names st) (names (snd (build_all bs st)))"
proof (induction bs arbitrary: st)
  case Nil
  then show ?case by simp
next
  case (Cons b bs)
  then have "table_ext (names st) (names (snd (b st)))"
    "table_ext (names (snd (b st))) (names (snd (build_all bs (snd (b st)))))"
    by (simp_all add: builds_ext_def)
  then show ?case by (simp only: build_all_Cons snd_conv) (rule table_ext_trans)
qed

lemma with_nodes_ext: "\<forall>b \<in> set bs. builds_ext b \<Longrightarrow> builds_ext (with_nodes f bs)"
  by (simp add: builds_ext_def with_nodes_eq build_all_ext)

lemma install_tree_ext:
  assumes "builds_ext b"
  shows "table_ext (names st) (names (install_tree e b st))"
proof -
  have "table_ext (names (st\<lparr>bbs := (bbs st)(e := Map.empty)\<rparr>))
          (names (snd (b (st\<lparr>bbs := (bbs st)(e := Map.empty)\<rparr>))))"
    using assms by (simp only: builds_ext_def)
  then show ?thesis by (simp add: install_tree_def case_prod_beta)
qed

section \<open>Builders of well-typed trees\<close>

lemma builds_wf_reg:
  assumes "distinct (map fst req)" "(n, t) \<in> set req"
    and "\<And>st. names (snd (b st)) = names (snd (reg_var t e n st))"
    and "\<And>st. node_wf (names (snd (b st))) (fst (b st)) =
                slot_ok (names (snd (b st))) t (fst (reg_var t e n st))"
  shows "builds_wf req b"
  unfolding builds_wf_def using reg_var_agree [OF assms(1,2)] assms(3,4) by simp

lemma builds_wf_pure:
  "(\<And>st. names (snd (b st)) = names st) \<Longrightarrow> (\<And>tbl st. node_wf tbl (fst (b st))) \<Longrightarrow> builds_wf req b"
  by (simp add: builds_wf_def)

lemma builds_wf_leaves:
  assumes "distinct (map fst req)"
  shows "(n, TEntity) \<in> set req \<Longrightarrow> builds_wf req (move_to_entity e n)"
    "(n, TEntity) \<in> set req \<Longrightarrow> builds_wf req (find_enemy e d n)"
    "(n, TEntity) \<in> set req \<Longrightarrow> builds_wf req (find_powerup e d n)"
    "(n, TEntity) \<in> set req \<Longrightarrow> builds_wf req (find_heal e d n)"
    "(n, TEntity) \<in> set req \<Longrightarrow> builds_wf req (find_waypoint e n)"
    "(n, TEntity) \<in> set req \<Longrightarrow> builds_wf req (flee e n)"
    "(n, TEntity) \<in> set req \<Longrightarrow> builds_wf req (alert_hoard e d n)"
    "(n, TPosition) \<in> set req \<Longrightarrow> builds_wf req (patrol e d n)"
    "builds_wf req (is_low_hp x)" "builds_wf req (patch_up x)" "builds_wf req random_walk"
  using assms
  apply -
  apply (rule builds_wf_reg [where t = TEntity and n = n and e = e], simp_all add: move_to_entity_def case_prod_beta)
  apply (rule builds_wf_reg [where t = TEntity and n = n and e = e], simp_all add: find_enemy_def case_prod_beta)
  apply (rule builds_wf_reg [where t = TEntity and n = n and e = e],
      simp_all add: find_powerup_def find_closest_of_def case_prod_beta)
  apply (rule builds_wf_reg [where t = TEntity and n = n and e = e],
      simp_all add: find_heal_def find_closest_of_def case_prod_beta)
  apply (rule builds_wf_reg [where t = TEntity and n = n and e = e], simp_all add: find_waypoint_def case_prod_beta)
  apply (rule builds_wf_reg [where t = TEntity and n = n and e = e], simp_all add: flee_def case_prod_beta)
  apply (rule builds_wf_reg [where t = TEntity and n = n and e = e], simp_all add: alert_hoard_def case_prod_beta)
  apply (rule builds_wf_reg [where t = TPosition and n = n and e = e],
      simp_all add: patrol_def case_prod_beta split: option.split)
  apply (rule builds_wf_pure, simp_all add: is_low_hp_def patch_up_def random_walk_def)+
  done

lemma build_all_wf:
  "\<forall>b \<in> set bs. builds_ext b \<and> builds_wf req b \<Longrightarrow> names_agree (names st) req \<Longrightarrow>
   names_agree (names (snd (build_all bs st))) req \<and>
   (\<forall>c \<in> set (fst (build_all bs st)). node_wf (names (snd (build_all bs st))) c)"
proof (induction bs arbitrary: st)
  case Nil
  then show ?case by simp
next
  case (Cons b bs)
  let ?st1 = "snd (b st)"
  have b: "names_agree (names ?st1) req" "node_wf (names ?st1) (fst (b st))"
    using Cons.prems by (simp_all add: builds_wf_def)
  have ih: "names_agree (names (snd (build_all bs ?st1))) req \<and>
      (\<forall>c \<in> set (fst (build_all bs ?st1)). node_wf (names (snd (build_all bs ?st1))) c)"
    using Cons.IH [OF _ b(1)] Cons.prems(1) by simp
  have "prefix (names ?st1) (names (snd (build_all bs ?st1)))"
    using build_all_ext [of bs ?st1] Cons.prems(1) by (simp add: table_ext_def)
  then have "node_wf (names (snd (build_all bs ?st1))) (fst (b st))"
    using b(2) by (rule node_wf_ext)
  then show ?case using ih by (simp only: build_all_Cons fst_conv snd_conv) simp
qed

lemma with_nodes_wf:
  assumes "\<And>tbl ns. node_wf tbl (f ns) = (\<forall>c \<in> set ns. node_wf tbl c)"
    and "\<forall>b \<in> set bs. builds_ext b \<and> builds_wf req b"
  shows "builds_wf req (with_nodes f bs)"
  using build_all_wf [OF assms(2)] assms(1) by (simp add: builds_wf_def with_nodes_eq)

lemma install_tree_wf:
  assumes "builds_wf req b" "names_agree (names st) req"
  shows "installed_wf e (install_tree e b st)"
proof -
  let ?st1 = "st\<lparr>bbs := (bbs st)(e := Map.empty)\<rparr>"
  have "node_wf (names (snd (b ?st1))) (fst (b ?st1))"
    using assms by (simp add: builds_wf_def)
  then show ?thesis by (simp add: installed_wf_def install_tree_def case_prod_beta)
qed

lemmas build_wf_rules = install_tree_wf with_nodes_wf with_nodes_ext builds_ext_leaves builds_wf_leaves

section \<open>Properties of the construction\<close>

text \<open>
  C21: the constructor of \<open>HoardListener\<close> registers its target and its flag
  under the same name, so both indices are the same slot, and the flag it clears
  is the slot where the listener and every other node of the hoard tree keep the
  provoking entity.
\<close>

theorem hoard_listener_shared_slot:
  assumes "hoard_listener e bb_name st = (HoardListener t f, st')"
  shows "t = f \<and> bbs st' e t = Some (VBool False)"
  using assms reg_var_twice [of TBool e bb_name TEntity st]
  by (auto simp: hoard_listener_def bb_write_def bb_set_def case_prod_beta)

theorem hoard_listener_shared_slot_witness:
  "fst (hoard_listener 1 ''hoard provoker'' (demo_state RandomWalk)) = HoardListener 1 1 \<and>
   bbs (snd (hoard_listener 1 ''hoard provoker'' (demo_state RandomWalk))) 1 1 = Some (VBool False)"
proof -
  have h: "hoard_listener 1 ''hoard provoker'' (demo_state RandomWalk) =
      (HoardListener 1 1, snd (hoard_listener 1 ''hoard provoker'' (demo_state RandomWalk)))"
    by (simp add: hoard_listener_def reg_var_def bb_register_def demo_state_def)
  from h have f: "fst (hoard_listener 1 ''hoard provoker'' (demo_state RandomWalk)) = HoardListener 1 1"
    by (metis fst_conv)
  show ?thesis using hoard_listener_shared_slot [OF h] f by simp
qed

text \<open>
  C23: when the names the behaviours use are unregistered or registered with the
  types their nodes read them at, the minotaur, gatherer and guard trees are
  well typed (so C26 applies to them), and the hoard tree never is: its
  listener's flag and target share a slot that cannot have both types.
\<close>

theorem create_trees_wf:
  assumes "names_agree (names st) behaviour_names"
  shows "installed_wf e (create_minotaur_beh e st) \<and> installed_wf e (create_gatherer_beh e st) \<and>
         installed_wf e (create_guard_beh e st) \<and> \<not> installed_wf e (create_hoard_beh e st)"
proof -
  have d: "distinct (map fst behaviour_names)" by (simp add: behaviour_names_def)
  note rules = build_wf_rules builds_wf_leaves [OF d]
  have m: "installed_wf e (create_minotaur_beh e st)"
    unfolding create_minotaur_beh_def
    by (rule install_tree_wf [OF _ assms]) (simp add: rules behaviour_names_def)
  have g: "installed_wf e (create_gatherer_beh e st)"
    unfolding create_gatherer_beh_def
    by (rule install_tree_wf [OF _ assms]) (simp add: rules behaviour_names_def)
  have u: "installed_wf e (create_guard_beh e st)"
    unfolding create_guard_beh_def
    by (rule install_tree_wf [OF _ assms]) (simp add: rules behaviour_names_def)
  obtain t where t: "fst (hoard_listener e ''hoard provoker'' (st\<lparr>bbs := (bbs st)(e := Map.empty)\<rparr>))
      = HoardListener t t"
    by (simp add: hoard_listener_def case_prod_beta bb_register_idempotent)
  have h: "\<not> installed_wf e (create_hoard_beh e st)"
    using t by (simp add: create_hoard_beh_def installed_wf_def install_tree_def with_nodes_eq
        case_prod_beta slot_ok_def)
  show ?thesis using m g u h by blast
qed

theorem create_trees_wf_witness:
  "installed_wf 1 (create_minotaur_beh 1 (demo_state RandomWalk)) \<and>
   \<not> installed_wf 1 (create_hoard_beh 1 (demo_state RandomWalk))"
proof -
  have "names_agree (names (demo_state RandomWalk)) behaviour_names"
    by (simp add: names_agree_def behaviour_names_def demo_state_def)
  then show ?thesis using create_trees_wf by blast
qed

text \<open>What building the hoard tree leaves: a selector whose listener holds one
  slot twice, followed by \<open>MoveToEntity\<close> on that slot, the slot registered as
  an entity and holding the cleared flag, the world untouched.\<close>

lemma hoard_tree_built:
  assumes agree: "names_agree (names st) behaviour_names"
  shows "\<exists>k rest. trees (create_hoard_beh e st) e = Some (Selector (HoardListener k k # MoveToEntity k # rest)) \<and>
    slot_ok (names (create_hoard_beh e st)) TEntity k \<and> bbs (create_hoard_beh e st) e k = Some (VBool False) \<and>
    world (create_hoard_beh e st) = world st"
proof -
  define hp where "hp = ''hoard provoker''"
  define st1 where "st1 = st\<lparr>bbs := (bbs st)(e := Map.empty)\<rparr>"
  define k where "k = fst (reg_var TEntity e hp st1)"
  define S1 where "S1 = snd (hoard_listener e hp st1)"
  define S2 where "S2 = snd (move_to_entity e hp S1)"
  define S3 where "S3 = snd (find_enemy e 2 hp S2)"
  define S4 where "S4 = snd (alert_hoard e 100 hp S3)"
  define S5 where "S5 = snd (patrol e 2 ''patrol_pos'' S4)"
  define p where "p = fst (reg_var TPosition e ''patrol_pos'' S4)"
  have d: "distinct (map fst behaviour_names)" by (simp add: behaviour_names_def)
  have agree1: "names_agree (names st1) behaviour_names" using agree by (simp add: st1_def)
  have k_ok: "slot_ok (names (snd (reg_var TEntity e hp st1))) TEntity k"
    using reg_var_agree [OF d _ agree1, of hp TEntity e] by (simp add: k_def hp_def behaviour_names_def)
  have n1: "names S1 = names (snd (reg_var TEntity e hp st1))"
    by (simp add: S1_def hoard_listener_def case_prod_beta bb_register_idempotent)
  have slot1: "slot_of hp (names S1) = Some k"
    using bb_register_slot [of hp TEntity "names st1"] by (simp add: n1 k_def)
  have same: "slot_of hp (names S) = Some k \<Longrightarrow>
      bb_register hp t (names S) = (k, names S)" for S t by (simp add: bb_register_def)
  have n2: "names S2 = names S1" "fst (move_to_entity e hp S1) = MoveToEntity k"
    using same [OF slot1] by (simp_all add: S2_def move_to_entity_def case_prod_beta)
  have n4: "names S4 = names S1"
    using same [OF slot1] by (simp add: S4_def S3_def n2 alert_hoard_def find_enemy_def case_prod_beta)
  have pref: "prefix (names S1) (names S5)"
    using table_ext_register [of "names S4" "''patrol_pos''" TPosition]
    by (simp add: S5_def patrol_def case_prod_beta n4 table_ext_def split: option.split)
  have slot5: "slot_of hp (names S5) = Some k" "slot_of ''patrol_pos'' (names S5) = Some p"
    using bb_register_stable [of "''patrol_pos''" TPosition "names S4" p _ hp k] slot1 n4
      bb_register_slot [of "''patrol_pos''" TPosition "names S4" p]
    by (auto simp: S5_def patrol_def case_prod_beta p_def split: option.split prod.split)
  have kp: "k \<noteq> p" using slot_of_inj [OF slot5(1)] slot5(2) by (auto simp: hp_def)
  have k5: "slot_ok (names S5) TEntity k"
    using slot_ok_ext [OF pref] k_ok n1 by simp
  have w: "world S5 = world st"
    by (simp add: S5_def S4_def S3_def S2_def S1_def st1_def patrol_def alert_hoard_def find_enemy_def
        move_to_entity_def hoard_listener_def case_prod_beta split: option.split)
  have b1: "bbs S1 e k = Some (VBool False)"
    using reg_var_twice [of TBool e hp TEntity st1]
    by (simp add: S1_def hoard_listener_def case_prod_beta k_def bb_write_def bb_set_def)
  have b5: "bbs S5 e k = Some (VBool False)"
    using b1 kp by (simp add: S5_def S4_def S3_def S2_def patrol_def alert_hoard_def find_enemy_def
        move_to_entity_def case_prod_beta p_def bb_write_def bb_set_def split: option.split)
  have root: "fst (with_nodes selector [hoard_listener e hp, move_to_entity e hp,
        with_nodes sequence [find_enemy e 2 hp, alert_hoard e 100 hp], patrol e 2 ''patrol_pos''] st1)
      = Selector (HoardListener k k # MoveToEntity k #
          fst (build_all [with_nodes sequence [find_enemy e 2 hp, alert_hoard e 100 hp],
                          patrol e 2 ''patrol_pos''] S2))"
    using reg_var_twice [of TBool e hp TEntity st1] n2
    by (simp add: with_nodes_eq build_all_Cons S2_def S1_def hoard_listener_def case_prod_beta k_def)
  have final: "snd (with_nodes selector [hoard_listener e hp, move_to_entity e hp,
        with_nodes sequence [find_enemy e 2 hp, alert_hoard e 100 hp], patrol e 2 ''patrol_pos''] st1) = S5"
    by (simp add: with_nodes_eq case_prod_beta S5_def S4_def S3_def S2_def S1_def)
  show ?thesis using root final k5 b5 w
    by (auto simp: create_hoard_beh_def install_tree_def hp_def [symmetric] st1_def [symmetric] case_prod_beta)
qed

text \<open>
  C25: the first tick of a freshly built hoard tree, on an NPC with an
  \<open>Action\<close> and a \<open>Position\<close>, reads the cleared flag where
  \<open>MoveToEntity\<close> expects the provoking entity: the read disagrees with the
  stored type, which the C++ \<open>get<flecs::entity>\<close> silently misreads and the
  model reports as \<open>BadType\<close>.
\<close>

theorem hoard_first_tick:
  assumes act: "act (world st) e \<noteq> None" and ps: "pos (world st) e = Some q"
    and agree: "names_agree (names st) behaviour_names"
  shows "tree_update e (create_hoard_beh e st) = Inl (BBError BadType)"
proof -
  obtain k rest where t: "trees (create_hoard_beh e st) e = Some (Selector (HoardListener k k # MoveToEntity k # rest))"
    and k: "slot_ok (names (create_hoard_beh e st)) TEntity k" "bbs (create_hoard_beh e st) e k = Some (VBool False)"
    and w: "world (create_hoard_beh e st) = world st"
    using hoard_tree_built [OF agree] by blast
  show ?thesis
    using t k w act ps
    by (auto simp: tree_update_def move_to_entity_update_def Let_def bb_read_def bb_get_def slot_ok_def)
qed

theorem hoard_first_tick_witness:
  "tree_update 1 (create_hoard_beh 1 (demo_state RandomWalk)) = Inl (BBError BadType)"
proof (rule hoard_first_tick)
  show "act (world (demo_state RandomWalk)) 1 \<noteq> None"
    by (simp add: demo_state_def demo_world_def)
  show "pos (world (demo_state RandomWalk)) 1 = Some (0, 0)"
    by (simp add: demo_state_def demo_world_def)
  show "names_agree (names (demo_state RandomWalk)) behaviour_names"
    by (simp add: names_agree_def behaviour_names_def demo_state_def)
qed

end
