(* ===== verification/Leaves.thy ===== *)
theory Leaves
  imports Build
begin

text \<open>
  Functional properties of the leaves that search, store and move: what
  \<open>FindEnemy\<close> stores, that \<open>MoveToEntity\<close> reads it back and steps towards it,
  and that \<open>Flee\<close> steps away.
\<close>

section \<open>Chasing and fleeing\<close>

text \<open>
  C22: on an entity with an \<open>Action\<close> and a \<open>Position\<close> \<open>p\<close> whose slot
  holds a live target standing at \<open>q\<close>, \<open>MoveToEntity\<close> succeeds without
  acting when \<open>p = q\<close> and otherwise keeps running and sets an action that
  steps one grid cell closer to the target; \<open>Flee\<close> keeps running and sets
  an action that steps one grid cell farther away.
\<close>

theorem chase_and_flee:
  assumes a: "act (world st) e \<noteq> None" and p: "pos (world st) e = Some p"
    and rd: "bb_read TEntity i e st = Inr (VEntity t)" and al: "is_alive (world st) t"
    and q: "pos (world st) t = Some q"
  shows "(if p = q then move_to_entity_update i e st = Inr (BEH_SUCCESS, st)
          else \<exists>m. move_to_entity_update i e st = Inr (BEH_RUNNING, set_action e m st) \<and>
                   grid_dist (move_pos p m) q = grid_dist p q - 1) \<and>
         (p \<noteq> q \<longrightarrow> (\<exists>m. flee_update i e st = Inr (BEH_RUNNING, set_action e m st) \<and>
                   grid_dist (move_pos p m) q = grid_dist p q + 1))"
proof -
  obtain a0 where a0: "act (world st) e = Some a0" using a by blast
  have mt: "move_to_entity_update i e st =
      (if p \<noteq> q then Inr (BEH_RUNNING, set_action e (move_towards p q) st) else Inr (BEH_SUCCESS, st))"
    using a0 p rd al q by (simp add: move_to_entity_update_def Let_def)
  have fl: "flee_update i e st = Inr (BEH_RUNNING, set_action e (inverse_move (move_towards p q)) st)"
    using a0 p rd al q by (simp add: flee_update_def Let_def)
  show ?thesis
    using mt fl move_towards_closer [of p q] flee_farther [of p q] by auto
qed

theorem chase_and_flee_witness:
  "act (world ((demo_state RandomWalk)\<lparr>bbs := (\<lambda>_. Map.empty)(1 := [0 \<mapsto> VEntity 2])\<rparr>)) 1 \<noteq> None \<and>
   pos (world ((demo_state RandomWalk)\<lparr>bbs := (\<lambda>_. Map.empty)(1 := [0 \<mapsto> VEntity 2])\<rparr>)) 1 = Some (0, 0) \<and>
   bb_read TEntity 0 1 ((demo_state RandomWalk)\<lparr>bbs := (\<lambda>_. Map.empty)(1 := [0 \<mapsto> VEntity 2])\<rparr>) = Inr (VEntity 2) \<and>
   is_alive (world ((demo_state RandomWalk)\<lparr>bbs := (\<lambda>_. Map.empty)(1 := [0 \<mapsto> VEntity 2])\<rparr>)) 2 \<and>
   pos (world ((demo_state RandomWalk)\<lparr>bbs := (\<lambda>_. Map.empty)(1 := [0 \<mapsto> VEntity 2])\<rparr>)) 2 = Some (3, 0) \<and>
   (\<exists>m. move_to_entity_update 0 1 ((demo_state RandomWalk)\<lparr>bbs := (\<lambda>_. Map.empty)(1 := [0 \<mapsto> VEntity 2])\<rparr>) =
          Inr (BEH_RUNNING, set_action 1 m ((demo_state RandomWalk)\<lparr>bbs := (\<lambda>_. Map.empty)(1 := [0 \<mapsto> VEntity 2])\<rparr>)) \<and>
        grid_dist (move_pos (0, 0) m) (3, 0) = 2)"
proof -
  let ?st = "(demo_state RandomWalk)\<lparr>bbs := (\<lambda>_. Map.empty)(1 := [0 \<mapsto> VEntity 2])\<rparr>"
  have h: "act (world ?st) 1 \<noteq> None" "pos (world ?st) 1 = Some (0, 0)"
    "bb_read TEntity 0 1 ?st = Inr (VEntity 2)" "is_alive (world ?st) 2" "pos (world ?st) 2 = Some (3, 0)"
    by (simp_all add: demo_state_def demo_world_def bb_read_def bb_get_def is_alive_def)
  have "grid_dist (0, 0) (3, 0) = 3" by (simp add: grid_dist_def)
  then show ?thesis using h chase_and_flee [OF h] by auto
qed

section \<open>Searching for the closest enemy\<close>

text \<open>
  C24: when \<open>FindEnemy\<close> succeeds, it has stored in its slot a live entity of
  another team that has a position within the search distance, and no entity of
  another team is strictly closer; reading the slot back at entity type returns
  that entity.
\<close>

theorem find_enemy_success:
  assumes ok: "find_enemy_update i d e st = Inr (BEH_SUCCESS, st')"
    and slot: "slot_ok (names st) TEntity i"
  shows "\<exists>x p q t. pos (world st) e = Some p \<and> team (world st) e = Some t \<and>
           is_valid (world st) x \<and> enemy_filter (world st) t x \<and> pos (world st) x = Some q \<and>
           dist_pos q p \<le> d \<and>
           (\<forall>y \<in> set (ents (world st)). \<forall>q'. pos (world st) y = Some q' \<longrightarrow>
              enemy_filter (world st) t y \<longrightarrow> dist_pos q p \<le> dist_pos q' p) \<and>
           st' = bb_write i (VEntity x) e st \<and> bb_read TEntity i e st' = Inr (VEntity x)"
proof -
  let ?w = "world st"
  obtain p t where pt: "pos ?w e = Some p" "team ?w e = Some t"
    using ok by (auto simp: find_enemy_update_def Let_def split: option.splits)
  obtain c dd where cl: "closest_loop (enemy_filter ?w t) ?w p (ents ?w) (0, FLT_MAX) = (c, dd)"
    by fastforce
  have succ: "is_valid ?w c" "dd \<le> d" "st' = bb_write i (VEntity c) e st"
    using ok pt cl by (auto simp: find_enemy_update_def Let_def split: if_splits)
  then have "c \<noteq> 0" by (simp add: is_valid_def)
  then obtain q where q: "enemy_filter ?w t c" "pos ?w c = Some q" "dd = dist_pos q p"
    using closest_loop_member [OF cl] by auto
  have rd: "bb_read TEntity i e st' = Inr (VEntity c)"
    using slot succ(3) by (simp add: bb_read_def bb_write_def bb_get_def bb_set_def slot_ok_def)
  show ?thesis
    using pt succ q rd closest_loop_min [OF cl] by (intro exI [of _ c]) auto
qed

theorem find_enemy_success_witness:
  "\<exists>x. bb_read TEntity 0 1 (bb_write 0 (VEntity 2) 1 (demo_state RandomWalk)) = Inr (VEntity x) \<and>
       is_valid demo_world x"
proof -
  have h: "find_enemy_update 0 3 1 (demo_state RandomWalk) =
      Inr (BEH_SUCCESS, bb_write 0 (VEntity 2) 1 (demo_state RandomWalk))"
    by (simp add: find_enemy_update_def demo_state_def demo_world_def enemy_filter_def dist_pos_def
        FLT_MAX_def is_valid_def Let_def)
  have s: "slot_ok (names (demo_state RandomWalk)) TEntity 0"
    by (simp add: slot_ok_def demo_state_def)
  show ?thesis using find_enemy_success [OF h s] by (auto simp: demo_state_def)
qed

end
