(* ===== verification/Setup.thy ===== *)
theory Setup
  imports Turn Leaves
begin

text \<open>
  The game's construction and its input, from src/w2/roguelike.cpp: the entity
  factories \<open>create_npc\<close> \<dots> \<open>create_heal\<close> and \<open>generate_waypoints\<close>,
  \<open>init_roguelike\<close> (the texture entities, the NPCs with their behaviours, the
  player and the pickups), and the keyboard system of
  \<open>register_roguelike_systems\<close>. Colours, textures and drawing are not
  modelled; \<open>ecs.entity()\<close> appends a fresh id to the live entities. The
  states reachable from a state are those that any interleaving of input
  frames and turns leads to; the game's states are those reachable from the
  state \<open>init_roguelike\<close> builds.
\<close>

section \<open>Entities\<close>

text \<open>\<open>ecs.entity()\<close>: a fresh live entity with no component.\<close>

definition new_entity :: "ai_state \<Rightarrow> eid \<times> ai_state" where
  "new_entity st =
     (let e = fold max (ents (world st)) 0 + 1
      in (e, st\<lparr>world := (world st)\<lparr>ents := ents (world st) @ [e]\<rparr>\<rparr>))"

definition create_npc :: "int \<Rightarrow> int \<Rightarrow> int \<Rightarrow> ai_state \<Rightarrow> eid \<times> ai_state" where
  "create_npc x y tm st =
     (case new_entity st of
        (e, st1) \<Rightarrow>
          let w = world st1 in
          (e, st1\<lparr>world := w\<lparr>pos := (pos w)(e \<mapsto> (x, y)), move_to := (move_to w)(e \<mapsto> (x, y)),
                     hitpoints := (hitpoints w)(e \<mapsto> 100), act := (act w)(e \<mapsto> EA_NOP),
                     team := (team w)(e \<mapsto> tm),
                     num_acts := (num_acts w)(e \<mapsto> \<lparr>numActions = 1, curActions = 0\<rparr>),
                     melee_damage := (melee_damage w)(e \<mapsto> 20)\<rparr>,
                  bbs := (bbs st1)(e := Map.empty)\<rparr>))"

definition create_monster :: "int \<Rightarrow> int \<Rightarrow> ai_state \<Rightarrow> eid \<times> ai_state" where
  "create_monster x y = create_npc x y 1"

definition create_ally :: "int \<Rightarrow> int \<Rightarrow> ai_state \<Rightarrow> eid \<times> ai_state" where
  "create_ally x y = create_npc x y 0"

definition create_gatherer :: "int \<Rightarrow> int \<Rightarrow> ai_state \<Rightarrow> eid \<times> ai_state" where
  "create_gatherer x y st =
     (case create_ally x y st of
        (e, st1) \<Rightarrow> (e, st1\<lparr>world := (world st1)\<lparr>can_pickup := (can_pickup (world st1))(e := True)\<rparr>\<rparr>))"

definition create_powerup :: "int \<Rightarrow> int \<Rightarrow> real \<Rightarrow> ai_state \<Rightarrow> ai_state" where
  "create_powerup x y amount st =
     (case new_entity st of
        (e, st1) \<Rightarrow>
          st1\<lparr>world := (world st1)\<lparr>pos := (pos (world st1))(e \<mapsto> (x, y)),
                 powerup_amount := (powerup_amount (world st1))(e \<mapsto> amount)\<rparr>\<rparr>)"

definition create_heal :: "int \<Rightarrow> int \<Rightarrow> real \<Rightarrow> ai_state \<Rightarrow> ai_state" where
  "create_heal x y amount st =
     (case new_entity st of
        (e, st1) \<Rightarrow>
          st1\<lparr>world := (world st1)\<lparr>pos := (pos (world st1))(e \<mapsto> (x, y)),
                 heal_amount := (heal_amount (world st1))(e \<mapsto> amount)\<rparr>\<rparr>)"

text \<open>The loop of \<open>generate_waypoints\<close>: \<open>isFirst\<close> is \<open>i == 0\<close>, \<open>lst\<close> (\<open>last\<close>) and
  \<open>fst_wp\<close> (\<open>first\<close>) start as the null entity 0.\<close>

fun wp_loop :: "position list \<Rightarrow> bool \<Rightarrow> eid \<Rightarrow> eid \<Rightarrow> ai_state \<Rightarrow> eid \<times> eid \<times> ai_state" where
  "wp_loop [] isFirst lst fst_wp st = (lst, fst_wp, st)"
| "wp_loop (p # ps) isFirst lst fst_wp st =
     (case new_entity st of
        (current, st1) \<Rightarrow>
          let st2 = st1\<lparr>world := (world st1)\<lparr>pos := (pos (world st1))(current \<mapsto> p)\<rparr>\<rparr> in
          if isFirst then wp_loop ps False current current st2
          else wp_loop ps False current fst_wp
                 (st2\<lparr>world := (world st2)\<lparr>next_wp := (next_wp (world st2))(lst \<mapsto> current)\<rparr>\<rparr>))"

text \<open>With \<open>cycle\<close> and no waypoint, \<open>last.set(\<dots>)\<close> is called on the null
  entity, which flecs rejects: the value \<open>None\<close>.\<close>

definition generate_waypoints :: "position list \<Rightarrow> bool \<Rightarrow> ai_state \<Rightarrow> (eid \<times> ai_state) option" where
  "generate_waypoints ps cycle st =
     (case wp_loop ps True 0 0 st of
        (lst, fst_wp, st1) \<Rightarrow>
          if cycle then
            (if lst = 0 then None
             else Some (fst_wp, st1\<lparr>world := (world st1)\<lparr>next_wp := (next_wp (world st1))(lst \<mapsto> fst_wp)\<rparr>\<rparr>))
          else Some (fst_wp, st1))"

definition create_guard :: "int \<Rightarrow> int \<Rightarrow> position list \<Rightarrow> ai_state \<Rightarrow> (eid \<times> ai_state) option" where
  "create_guard x y waypoints st =
     (case create_ally x y st of
        (e, st1) \<Rightarrow>
          (case generate_waypoints waypoints True st1 of
             None \<Rightarrow> None
           | Some (fst_wp, st2) \<Rightarrow>
               Some (e, st2\<lparr>world := (world st2)\<lparr>cur_wp := (cur_wp (world st2))(e \<mapsto> fst_wp)\<rparr>\<rparr>)))"

definition create_player :: "int \<Rightarrow> int \<Rightarrow> ai_state \<Rightarrow> ai_state" where
  "create_player x y st =
     (case new_entity st of
        (e, st1) \<Rightarrow>
          let w = world st1 in
          st1\<lparr>world := w\<lparr>pos := (pos w)(e \<mapsto> (x, y)), move_to := (move_to w)(e \<mapsto> (x, y)),
                 hitpoints := (hitpoints w)(e \<mapsto> 100), act := (act w)(e \<mapsto> EA_NOP),
                 is_player := (is_player w)(e := True), can_pickup := (can_pickup w)(e := True),
                 team := (team w)(e \<mapsto> 0),
                 player_inp := (player_inp w)(e \<mapsto> \<lparr>left = False, right = False, up = False, down = False, skip = False\<rparr>),
                 num_acts := (num_acts w)(e \<mapsto> \<lparr>numActions = 2, curActions = 0\<rparr>),
                 melee_damage := (melee_damage w)(e \<mapsto> 50)\<rparr>\<rparr>)"

section \<open>The initial state\<close>

definition empty_state :: "(nat \<Rightarrow> real) \<Rightarrow> (nat \<Rightarrow> nat) \<Rightarrow> ai_state" where
  "empty_state r l =
     \<lparr>world = \<lparr>ents = [], pos = Map.empty, hitpoints = Map.empty, act = Map.empty, team = Map.empty,
        cur_wp = Map.empty, next_wp = Map.empty, powerup_amount = Map.empty, heal_amount = Map.empty,
        move_to = Map.empty, melee_damage = Map.empty, is_player = (\<lambda>_. False),
        can_pickup = (\<lambda>_. False), num_acts = Map.empty, player_inp = Map.empty\<rparr>,
      names = [], bbs = (\<lambda>_. Map.empty), trees = Map.empty,
      utils = (\<lambda>_. \<lparr>last_choice = None, stale = 0\<rparr>), rng = r, rng_pos = 0, rl_rand = l, rl_pos = 0\<rparr>"

text \<open>A monster with a hoard behaviour at \<open>(x, y)\<close>.\<close>

definition hoard_at :: "int \<Rightarrow> int \<Rightarrow> ai_state \<Rightarrow> ai_state" where
  "hoard_at x y st = (case create_monster x y st of (e, st1) \<Rightarrow> create_hoard_beh e st1)"

definition init_roguelike :: "ai_state \<Rightarrow> ai_state option" where
  "init_roguelike st0 =
     (let st1 = snd (new_entity (snd (new_entity (snd (new_entity (snd (new_entity (snd (new_entity st0)))))))));
          st2 = (case create_monster 5 5 st1 of (e, s) \<Rightarrow> create_minotaur_beh e s);
          st3 = (case create_monster (-5) 5 st2 of (e, s) \<Rightarrow> create_minotaur_beh e s);
          st4 = (case create_gatherer (-3) 3 st3 of (e, s) \<Rightarrow> create_gatherer_beh e s)
      in case create_guard 3 3 [(0, 0), (3, 3)] st4 of
           None \<Rightarrow> None
         | Some (g, st5) \<Rightarrow>
             let st6 = hoard_at 12 6 (hoard_at 10 4 (hoard_at 12 2 (hoard_at 10 0 (create_guard_beh g st5))));
                 st7 = create_player 0 0 st6;
                 st8 = create_powerup 10 (-4) 10 (create_powerup 10 (-6) 10 (create_powerup 7 7 10 st7))
             in Some (create_heal (-5) 5 50 (create_heal (-5) (-5) 50 st8)))"

section \<open>Input\<close>

text \<open>The body of the \<open>PlayerInput, Action, IsPlayer\<close> system: a key pressed
  since the previous frame sets the action, the later tests winning.\<close>

definition key_action :: "player_input \<Rightarrow> player_input \<Rightarrow> action \<Rightarrow> action" where
  "key_action keys inp a =
     (let a1 = if left keys \<and> \<not> left inp then EA_MOVE_LEFT else a;
          a2 = if right keys \<and> \<not> right inp then EA_MOVE_RIGHT else a1;
          a3 = if up keys \<and> \<not> up inp then EA_MOVE_UP else a2;
          a4 = if down keys \<and> \<not> down inp then EA_MOVE_DOWN else a3
      in if skip keys \<and> \<not> skip inp then EA_MOVE_SKIP else a4)"

fun input_loop :: "player_input \<Rightarrow> eid list \<Rightarrow> world \<Rightarrow> world" where
  "input_loop keys [] w = w"
| "input_loop keys (e # es) w =
     (case (player_inp w e, act w e) of
        (Some inp, Some a) \<Rightarrow>
          if is_player w e
          then input_loop keys es (w\<lparr>act := (act w)(e \<mapsto> key_action keys inp a),
                                     player_inp := (player_inp w)(e \<mapsto> keys)\<rparr>)
          else input_loop keys es w
      | _ \<Rightarrow> input_loop keys es w)"

definition player_input_system :: "player_input \<Rightarrow> world \<Rightarrow> world" where
  "player_input_system keys w = input_loop keys (ents w) w"

text \<open>A builder that changes only the name table and the blackboards.\<close>

definition nb_erase :: "ai_state \<Rightarrow> ai_state" where
  "nb_erase st = st\<lparr>names := [], bbs := (\<lambda>_. Map.empty)\<rparr>"

definition builds_frame :: "builder \<Rightarrow> bool" where
  "builds_frame b \<longleftrightarrow> (\<forall>st. nb_erase (snd (b st)) = nb_erase st)"

text \<open>The states the main loop reaches from \<open>st0\<close>: any interleaving of input
  frames and turns that do not fail.\<close>

inductive reachable :: "ai_state \<Rightarrow> ai_state \<Rightarrow> bool" for st0 where
  start: "reachable st0 st0"
| input: "reachable st0 st \<Longrightarrow> reachable st0 (st\<lparr>world := player_input_system keys (world st)\<rparr>)"
| turn: "reachable st0 st \<Longrightarrow> process_turn st = Inr st' \<Longrightarrow> reachable st0 st'"

text \<open>Following \<open>NextWaypoint\<close> from \<open>e\<close> for \<open>n\<close> steps, as \<open>FindWaypoint\<close>
  does: the positions visited and the entity reached.\<close>

fun wp_walk :: "world \<Rightarrow> nat \<Rightarrow> eid \<Rightarrow> (position list \<times> eid) option" where
  "wp_walk w 0 e = Some ([], e)"
| "wp_walk w (Suc n) e =
     (case (pos w e, next_wp w e) of
        (Some p, Some e') \<Rightarrow> map_option (\<lambda>(ps, x). (p # ps, x)) (wp_walk w n e')
      | _ \<Rightarrow> None)"

section \<open>Construction keeps the invariants\<close>

text \<open>The construction invariant: the turn invariant, no component on an id
  that is not live, and \<open>C\<close> the cells planned by the live entities.\<close>

definition occupied :: "world \<Rightarrow> position set" where
  "occupied w = {c. \<exists>e \<in> set (ents w). move_to w e = Some c}"

definition clean :: "world \<Rightarrow> bool" where
  "clean w \<longleftrightarrow> (\<forall>e. e \<notin> set (ents w) \<longrightarrow> move_to w e = None \<and> \<not> is_player w e)"

definition setup_inv :: "position set \<Rightarrow> ai_state \<Rightarrow> bool" where
  "setup_inv C st \<longleftrightarrow> draws_ok st \<and> world_inv (world st) \<and> clean (world st) \<and> occupied (world st) = C"

section \<open>Building a behaviour changes no component\<close>

lemma nb_erase_fields:
  "nb_erase s' = nb_erase s \<Longrightarrow> world s' = world s \<and> rng s' = rng s \<and> trees s' = trees s"
  unfolding nb_erase_def by (cases s, cases s') simp

lemma nb_erase_upd [simp]:
  "nb_erase (st\<lparr>names := N\<rparr>) = nb_erase st" "nb_erase (st\<lparr>bbs := B\<rparr>) = nb_erase st"
  by (simp_all add: nb_erase_def)

lemma builds_frame_leaves:
  "builds_frame (move_to_entity e n)" "builds_frame (is_low_hp x)" "builds_frame (find_enemy e d n)"
  "builds_frame (find_closest_of q e d n)" "builds_frame (find_powerup e d n)" "builds_frame (find_heal e d n)"
  "builds_frame (find_waypoint e n)" "builds_frame (flee e n)" "builds_frame (patrol e d n)"
  "builds_frame (hoard_listener e n)" "builds_frame (alert_hoard e d n)" "builds_frame (patch_up x)"
  "builds_frame random_walk"
  by (simp_all add: builds_frame_def move_to_entity_def is_low_hp_def find_enemy_def find_closest_of_def
      find_powerup_def find_heal_def find_waypoint_def flee_def patrol_def hoard_listener_def alert_hoard_def
      patch_up_def random_walk_def reg_var_def bb_write_def case_prod_beta split: option.split)

lemma build_all_frame:
  "\<forall>b \<in> set bs. builds_frame b \<Longrightarrow> nb_erase (snd (build_all bs st)) = nb_erase st"
proof (induction bs arbitrary: st)
  case Nil
  then show ?case by simp
next
  case (Cons b bs)
  then have "nb_erase (snd (b st)) = nb_erase st"
    "nb_erase (snd (build_all bs (snd (b st)))) = nb_erase (snd (b st))"
    by (simp_all add: builds_frame_def)
  then show ?case by (simp only: build_all_Cons snd_conv)
qed

lemma with_nodes_frame: "\<forall>b \<in> set bs. builds_frame b \<Longrightarrow> builds_frame (with_nodes f bs)"
  by (simp add: builds_frame_def with_nodes_eq build_all_frame)

lemma install_tree_frame:
  assumes "builds_frame b"
  shows "world (install_tree e b st) = world st \<and> rng (install_tree e b st) = rng st"
proof -
  have f: "nb_erase (snd (b (st\<lparr>bbs := (bbs st)(e := Map.empty)\<rparr>))) = nb_erase st"
    using assms by (simp add: builds_frame_def)
  show ?thesis using nb_erase_fields [OF f] by (simp add: install_tree_def case_prod_beta)
qed

lemma create_behs_frame:
  "world (create_minotaur_beh e st) = world st" "rng (create_minotaur_beh e st) = rng st"
  "world (create_gatherer_beh e st) = world st" "rng (create_gatherer_beh e st) = rng st"
  "world (create_hoard_beh e st) = world st" "rng (create_hoard_beh e st) = rng st"
  "world (create_guard_beh e st) = world st" "rng (create_guard_beh e st) = rng st"
  by (simp_all add: create_minotaur_beh_def create_gatherer_beh_def create_hoard_beh_def
      create_guard_beh_def install_tree_frame with_nodes_frame builds_frame_leaves)

lemma fold_max_ge: "m \<le> fold max xs m \<and> (\<forall>x \<in> set xs. x \<le> fold max xs (m::nat))"
proof (induction xs arbitrary: m)
  case Nil
  then show ?case by simp
next
  case (Cons y ys)
  then show ?case using le_trans max.cobounded1 max.cobounded2 by (metis fold_simps(2) set_ConsD)
qed

lemma new_entity_fresh: "new_entity st = (e, st') \<Longrightarrow> e \<notin> set (ents (world st)) \<and> e \<noteq> 0"
  using fold_max_ge [of 0 "ents (world st)"] by (auto simp: new_entity_def Let_def)

lemma world_inv_add_mover:
  assumes inv: "world_inv w" "clean w" and e: "e \<notin> set (ents w)" and free: "c \<notin> occupied w"
    and f: "ents w' = ents w @ [e]" "pos w' = (pos w)(e \<mapsto> c)" "move_to w' = (move_to w)(e \<mapsto> c)"
      "hitpoints w' e \<noteq> None" "team w' e \<noteq> None" "is_player w' e \<longrightarrow> counter_ok (num_acts w' e)"
    and same: "\<forall>z. z \<noteq> e \<longrightarrow> hitpoints w' z = hitpoints w z \<and> team w' z = team w z \<and>
                  is_player w' z = is_player w z \<and> num_acts w' z = num_acts w z"
  shows "world_inv w'"
proof -
  have cd: "cells_distinct w" and mw: "movers_wf w" and ps: "pos_sync w" and co: "counters_ok w"
    using inv(1) by (simp_all add: world_inv_def)
  have other: "\<forall>y \<in> set (ents w). move_to w y \<noteq> Some c" using free by (auto simp: occupied_def)
  have "cells_distinct w'"
    unfolding cells_distinct_def
  proof (intro ballI impI)
    fix x y assume x: "x \<in> set (ents w')" and y: "y \<in> set (ents w')" and xy: "x \<noteq> y"
      and m: "move_to w' x \<noteq> None"
    show "move_to w' x \<noteq> move_to w' y"
    proof (cases "x = e")
      case True
      then show ?thesis using y xy other f(1,3) by auto
    next
      case False
      then have xw: "x \<in> set (ents w)" "move_to w x \<noteq> None" using x m f(1,3) by auto
      show ?thesis
      proof (cases "y = e")
        case True
        then show ?thesis using xw other f(3) False by force
      next
        case False
        then show ?thesis using xw y xy cd f(1,3) \<open>x \<noteq> e\<close> by (simp add: cells_distinct_def)
      qed
    qed
  qed
  moreover have "movers_wf w'" using mw f same by (auto simp: movers_wf_def)
  moreover have "pos_sync w'" using ps f by (auto simp: pos_sync_def)
  moreover have "counters_ok w'" using co f same by (auto simp: counters_ok_def)
  ultimately show ?thesis by (simp add: world_inv_def)
qed

lemma world_inv_add_static:
  assumes inv: "world_inv w" "clean w" and e: "e \<notin> set (ents w)"
    and f: "ents w' = ents w @ [e]" "move_to w' = move_to w" "is_player w' = is_player w"
      "num_acts w' = num_acts w" "hitpoints w' = hitpoints w" "team w' = team w"
      "\<forall>z. z \<noteq> e \<longrightarrow> pos w' z = pos w z"
  shows "world_inv w' \<and> clean w' \<and> occupied w' = occupied w"
proof -
  have none: "move_to w e = None" "\<not> is_player w e" using inv(2) e by (simp_all add: clean_def)
  have "cells_distinct w'" using inv(1) f none by (auto simp: world_inv_def cells_distinct_def)
  moreover have "movers_wf w'" using inv(1) f none by (auto simp: world_inv_def movers_wf_def)
  moreover have "pos_sync w'"
    unfolding pos_sync_def
  proof (intro ballI impI)
    fix x assume "x \<in> set (ents w')" "move_to w' x \<noteq> None"
    then have "x \<in> set (ents w)" "x \<noteq> e" "move_to w x \<noteq> None" using f none by auto
    then show "pos w' x = move_to w' x" using inv(1) f by (simp add: world_inv_def pos_sync_def)
  qed
  moreover have "counters_ok w'" using inv(1) f none by (auto simp: world_inv_def counters_ok_def)
  moreover have "clean w'" using inv(2) f by (simp add: clean_def)
  moreover have "occupied w' = occupied w" using f none by (auto simp: occupied_def)
  ultimately show ?thesis by (simp add: world_inv_def)
qed

lemma new_entity_world:
  "new_entity st = (e, st') \<Longrightarrow> st' = st\<lparr>world := (world st)\<lparr>ents := ents (world st) @ [e]\<rparr>\<rparr>"
  by (auto simp: new_entity_def Let_def)

lemma setup_new_entity:
  assumes "setup_inv C st"
  shows "setup_inv C (snd (new_entity st))"
proof -
  obtain e st' where ne: "new_entity st = (e, st')" by fastforce
  have "e \<notin> set (ents (world st))" using new_entity_fresh [OF ne] by simp
  then show ?thesis
    using world_inv_add_static [of "world st" e "world st'"] assms new_entity_world [OF ne] ne
    by (simp add: setup_inv_def)
qed

lemma setup_add_mover:
  assumes inv: "world_inv w" "clean w" and e: "e \<notin> set (ents w)" and free: "c \<notin> occupied w"
    and f: "ents w' = ents w @ [e]" "pos w' = (pos w)(e \<mapsto> c)" "move_to w' = (move_to w)(e \<mapsto> c)"
      "hitpoints w' e \<noteq> None" "team w' e \<noteq> None" "is_player w' e \<longrightarrow> counter_ok (num_acts w' e)"
    and same: "\<forall>z. z \<noteq> e \<longrightarrow> hitpoints w' z = hitpoints w z \<and> team w' z = team w z \<and>
                  is_player w' z = is_player w z \<and> num_acts w' z = num_acts w z"
  shows "world_inv w' \<and> clean w' \<and> occupied w' = insert c (occupied w)"
proof -
  have none: "move_to w e = None" using inv(2) e by (simp add: clean_def)
  have "clean w'" using inv(2) f(1,3) same by (auto simp: clean_def)
  moreover have "occupied w' = insert c (occupied w)" using f(1,3) none e by (auto simp: occupied_def)
  ultimately show ?thesis using world_inv_add_mover [OF inv e free f same] by simp
qed

lemma setup_npc:
  assumes "setup_inv C st" "(x, y) \<notin> C"
  shows "setup_inv (insert (x, y) C) (snd (create_npc x y t st))"
proof -
  obtain e st1 where ne: "new_entity st = (e, st1)" by fastforce
  have "e \<notin> set (ents (world st))" using new_entity_fresh [OF ne] by simp
  then show ?thesis
    using setup_add_mover [of "world st" e "(x, y)" "world (snd (create_npc x y t st))"] assms
      new_entity_world [OF ne]
    by (simp add: setup_inv_def create_npc_def ne Let_def clean_def draws_ok_def)
qed

lemma setup_player:
  assumes "setup_inv C st" "(x, y) \<notin> C"
  shows "setup_inv (insert (x, y) C) (create_player x y st)"
proof -
  obtain e st1 where ne: "new_entity st = (e, st1)" by fastforce
  have "e \<notin> set (ents (world st))" using new_entity_fresh [OF ne] by simp
  then show ?thesis
    using setup_add_mover [of "world st" e "(x, y)" "world (create_player x y st)"] assms
      new_entity_world [OF ne]
    by (simp add: setup_inv_def create_player_def ne Let_def clean_def counter_ok_def)
qed

lemma setup_pickups:
  assumes "setup_inv C st"
  shows "setup_inv C (create_powerup x y a st)" "setup_inv C (create_heal x y a st)"
proof -
  obtain e st1 where ne: "new_entity st = (e, st1)" by fastforce
  have "e \<notin> set (ents (world st))" using new_entity_fresh [OF ne] by simp
  then show "setup_inv C (create_powerup x y a st)" "setup_inv C (create_heal x y a st)"
    using world_inv_add_static [of "world st" e "world (create_powerup x y a st)"]
      world_inv_add_static [of "world st" e "world (create_heal x y a st)"] assms new_entity_world [OF ne]
    by (simp_all add: setup_inv_def create_powerup_def create_heal_def ne)
qed

lemma setup_world_eq:
  assumes "ents w = ents (world st)" "pos w = pos (world st)" "move_to w = move_to (world st)"
    "hitpoints w = hitpoints (world st)" "team w = team (world st)" "is_player w = is_player (world st)"
    "num_acts w = num_acts (world st)"
  shows "setup_inv C (st\<lparr>world := w\<rparr>) = setup_inv C st"
  using assms by (simp add: setup_inv_def world_inv_def cells_distinct_def movers_wf_def pos_sync_def
      counters_ok_def clean_def occupied_def draws_ok_def)

lemma setup_behs [simp]:
  "setup_inv C (create_minotaur_beh e st) = setup_inv C st"
  "setup_inv C (create_gatherer_beh e st) = setup_inv C st"
  "setup_inv C (create_hoard_beh e st) = setup_inv C st"
  "setup_inv C (create_guard_beh e st) = setup_inv C st"
  by (simp_all add: setup_inv_def draws_ok_def create_behs_frame)

lemma setup_wp_loop:
  "setup_inv C st \<Longrightarrow>
   setup_inv C (snd (snd (wp_loop ps b lst f st))) \<and> (ps \<noteq> [] \<longrightarrow> fst (wp_loop ps b lst f st) \<noteq> 0)"
proof (induction ps arbitrary: b lst f st)
  case Nil
  then show ?case by simp
next
  case (Cons p ps)
  obtain e st1 where ne: "new_entity st = (e, st1)" by fastforce
  have fresh: "e \<notin> set (ents (world st))" "e \<noteq> 0" using new_entity_fresh [OF ne] by simp_all
  define st2 where "st2 = st1\<lparr>world := (world st1)\<lparr>pos := (pos (world st1))(e \<mapsto> p)\<rparr>\<rparr>"
  have s2: "setup_inv C st2"
    using world_inv_add_static [of "world st" e "world st2"] Cons.prems fresh new_entity_world [OF ne]
    by (simp add: setup_inv_def st2_def)
  have eq: "wp_loop (p # ps) b lst f st =
      (if b then wp_loop ps False e e st2
       else wp_loop ps False e f (st2\<lparr>world := (world st2)\<lparr>next_wp := (next_wp (world st2))(lst \<mapsto> e)\<rparr>\<rparr>))"
    using ne by (simp add: st2_def Let_def)
  have s3: "setup_inv C (st2\<lparr>world := (world st2)\<lparr>next_wp := (next_wp (world st2))(lst \<mapsto> e)\<rparr>\<rparr>)"
    using s2 by (simp add: setup_world_eq)
  show ?case
  proof (cases "ps = []")
    case True
    then show ?thesis using eq s2 s3 fresh by simp
  next
    case False
    then show ?thesis
      unfolding eq using Cons.IH [OF s2, of False e e] Cons.IH [OF s3, of False e f]
      by (simp del: wp_loop.simps)
  qed
qed

lemma setup_guard:
  assumes "setup_inv C st" "(x, y) \<notin> C" "ps \<noteq> []"
  shows "\<exists>g st'. create_guard x y ps st = Some (g, st') \<and> setup_inv (insert (x, y) C) st'"
proof -
  obtain g st1 where a: "create_ally x y st = (g, st1)" by fastforce
  have s1: "setup_inv (insert (x, y) C) st1" using setup_npc [OF assms(1,2), of 0] a by (simp add: create_ally_def)
  obtain lst f st2 where w: "wp_loop ps True 0 0 st1 = (lst, f, st2)" by (cases "wp_loop ps True 0 0 st1") auto
  have "setup_inv (insert (x, y) C) st2" "lst \<noteq> 0" using setup_wp_loop [OF s1, of ps True 0 0] w assms(3) by simp_all
  then show ?thesis using a w by (simp add: create_guard_def generate_waypoints_def setup_world_eq)
qed

lemma setup_beh:
  assumes "setup_inv C st" "(x, y) \<notin> C" "\<And>e s. setup_inv (insert (x, y) C) (f e s) = setup_inv (insert (x, y) C) s"
  shows "setup_inv (insert (x, y) C) (case create_npc x y t st of (e, s) \<Rightarrow> f e s)"
  using setup_npc [OF assms(1,2), of t] assms(3) by (simp add: case_prod_beta)

lemma setup_gatherer:
  assumes "setup_inv C st" "(x, y) \<notin> C" "\<And>e s. setup_inv (insert (x, y) C) (f e s) = setup_inv (insert (x, y) C) s"
  shows "setup_inv (insert (x, y) C) (case create_gatherer x y st of (e, s) \<Rightarrow> f e s)"
proof -
  obtain e st1 where a: "create_ally x y st = (e, st1)" by fastforce
  have "setup_inv (insert (x, y) C) st1" using setup_npc [OF assms(1,2), of 0] a by (simp add: create_ally_def)
  then show ?thesis using a assms(3) by (simp add: create_gatherer_def setup_world_eq)
qed

lemma setup_hoard_at:
  "setup_inv C st \<Longrightarrow> (x, y) \<notin> C \<Longrightarrow> setup_inv (insert (x, y) C) (hoard_at x y st)"
  unfolding hoard_at_def create_monster_def by (rule setup_beh) simp_all

lemma init_setup:
  assumes "draws_ok (empty_state r l)"
  shows "\<exists>st. init_roguelike (empty_state r l) = Some st \<and>
           setup_inv {(0, 0), (12, 6), (10, 4), (12, 2), (10, 0), (3, 3), (-3, 3), (-5, 5), (5, 5)} st"
proof -
  define st1 where "st1 = snd (new_entity (snd (new_entity (snd (new_entity (snd (new_entity
    (snd (new_entity (empty_state r l))))))))))"
  define st2 where "st2 = (case create_monster 5 5 st1 of (e, s) \<Rightarrow> create_minotaur_beh e s)"
  define st3 where "st3 = (case create_monster (-5) 5 st2 of (e, s) \<Rightarrow> create_minotaur_beh e s)"
  define st4 where "st4 = (case create_gatherer (-3) 3 st3 of (e, s) \<Rightarrow> create_gatherer_beh e s)"
  have "setup_inv {} (empty_state r l)"
    using assms by (simp add: setup_inv_def world_inv_def cells_distinct_def movers_wf_def pos_sync_def
        counters_ok_def clean_def occupied_def empty_state_def)
  then have "setup_inv {} st1" by (simp add: st1_def setup_new_entity)
  then have "setup_inv {(5, 5)} st2"
    using setup_beh [of "{}" st1 5 5 create_minotaur_beh 1] by (simp add: st2_def create_monster_def)
  then have "setup_inv {(-5, 5), (5, 5)} st3"
    using setup_beh [of "{(5, 5)}" st2 "-5" 5 create_minotaur_beh 1] by (simp add: st3_def create_monster_def)
  then have s4: "setup_inv {(-3, 3), (-5, 5), (5, 5)} st4"
    using setup_gatherer [of "{(-5, 5), (5, 5)}" st3 "-3" 3 create_gatherer_beh] by (simp add: st4_def)
  obtain g st5 where g: "create_guard 3 3 [(0, 0), (3, 3)] st4 = Some (g, st5)"
    and s5: "setup_inv {(3, 3), (-3, 3), (-5, 5), (5, 5)} st5"
    using setup_guard [OF s4, of 3 3 "[(0, 0), (3, 3)]"] by auto
  define st6 where "st6 = hoard_at 12 6 (hoard_at 10 4 (hoard_at 12 2 (hoard_at 10 0 (create_guard_beh g st5))))"
  have "setup_inv {(12, 6), (10, 4), (12, 2), (10, 0), (3, 3), (-3, 3), (-5, 5), (5, 5)} st6"
    unfolding st6_def using s5 by (simp add: setup_hoard_at)
  then have "setup_inv {(0, 0), (12, 6), (10, 4), (12, 2), (10, 0), (3, 3), (-3, 3), (-5, 5), (5, 5)}
      (create_heal (-5) 5 50 (create_heal (-5) (-5) 50
        (create_powerup 10 (-4) 10 (create_powerup 10 (-6) 10 (create_powerup 7 7 10 (create_player 0 0 st6))))))"
    by (simp add: setup_player setup_pickups)
  moreover have "init_roguelike (empty_state r l) =
      Some (create_heal (-5) 5 50 (create_heal (-5) (-5) 50
        (create_powerup 10 (-4) 10 (create_powerup 10 (-6) 10 (create_powerup 7 7 10 (create_player 0 0 st6))))))"
    unfolding init_roguelike_def Let_def st1_def [symmetric] st2_def [symmetric] st3_def [symmetric]
      st4_def [symmetric] g st6_def by simp
  ultimately show ?thesis by blast
qed

lemma input_loop_fields:
  "ents (input_loop keys es w) = ents w \<and> pos (input_loop keys es w) = pos w \<and>
   move_to (input_loop keys es w) = move_to w \<and> hitpoints (input_loop keys es w) = hitpoints w \<and>
   team (input_loop keys es w) = team w \<and> is_player (input_loop keys es w) = is_player w \<and>
   num_acts (input_loop keys es w) = num_acts w"
  by (induction keys es w rule: input_loop.induct) (simp_all split: option.split)

section \<open>The waypoint ring\<close>

lemma new_entity_max:
  "new_entity st = (e, st') \<Longrightarrow> e = fold max (ents (world st)) 0 + 1 \<and>
     fold max (ents (world st')) 0 = e \<and> st' = st\<lparr>world := (world st)\<lparr>ents := ents (world st) @ [e]\<rparr>\<rparr>"
  by (auto simp: new_entity_def Let_def max_def)

lemma wp_loop_chain:
  "fold max (ents (world st)) 0 = n \<Longrightarrow> wp_loop ps False n f st = (lst', f', st') \<Longrightarrow>
   f' = f \<and> lst' = n + length ps \<and>
   (\<forall>i < length ps. pos (world st') (n + 1 + i) = Some (ps ! i)) \<and>
   (\<forall>i < length ps. next_wp (world st') (n + i) = Some (n + 1 + i)) \<and>
   (\<forall>x \<le> n. pos (world st') x = pos (world st) x) \<and>
   (\<forall>x < n. next_wp (world st') x = next_wp (world st) x)"
proof (induction ps arbitrary: n st)
  case Nil
  then show ?case by simp
next
  case (Cons p ps)
  obtain e st1 where ne: "new_entity st = (e, st1)" by fastforce
  note m = new_entity_max [OF ne]
  have e: "e = n + 1" using m Cons.prems(1) by simp
  define st3 where "st3 = st1\<lparr>world := (world st1)\<lparr>pos := (pos (world st1))(e \<mapsto> p),
                                   next_wp := (next_wp (world st1))(n \<mapsto> e)\<rparr>\<rparr>"
  have eq: "wp_loop ps False e f st3 = (lst', f', st')"
    using Cons.prems(2) ne by (simp add: st3_def Let_def)
  have mx: "fold max (ents (world st3)) 0 = e" using m by (simp add: st3_def)
  note IH = Cons.IH [OF mx eq]
  have "\<forall>i < length (p # ps). pos (world st') (n + 1 + i) = Some ((p # ps) ! i)"
  proof (intro allI impI)
    fix i assume "i < length (p # ps)"
    then show "pos (world st') (n + 1 + i) = Some ((p # ps) ! i)"
      using IH e by (cases i) (simp_all add: st3_def)
  qed
  moreover have "\<forall>i < length (p # ps). next_wp (world st') (n + i) = Some (n + 1 + i)"
  proof (intro allI impI)
    fix i assume "i < length (p # ps)"
    then show "next_wp (world st') (n + i) = Some (n + 1 + i)"
      using IH e by (cases i) (simp_all add: st3_def)
  qed
  ultimately show ?case using IH e m by (simp add: st3_def)
qed

lemma wp_walk_ring:
  assumes "\<forall>i < length qs. pos w (a + i) = Some (qs ! i)"
    "\<forall>i. Suc i < length qs \<longrightarrow> next_wp w (a + i) = Some (a + Suc i)"
    "next_wp w (a + (length qs - 1)) = Some a"
  shows "i < length qs \<Longrightarrow> i + j \<le> length qs \<Longrightarrow>
         wp_walk w j (a + i) = Some (take j (drop i qs), if i + j = length qs then a else a + i + j)"
proof (induction j arbitrary: i)
  case 0
  then show ?case by simp
next
  case (Suc j)
  have p: "pos w (a + i) = Some (qs ! i)" using assms(1) Suc.prems(1) by simp
  show ?case
  proof (cases "Suc i < length qs")
    case True
    then have "next_wp w (a + i) = Some (a + Suc i)" using assms(2) by simp
    then show ?thesis using Suc.IH [of "Suc i"] Suc.prems True p
      by (simp add: Cons_nth_drop_Suc [symmetric])
  next
    case False
    then have i: "i = length qs - 1" "j = 0" using Suc.prems by auto
    then have "next_wp w (a + i) = Some a" using assms(3) by simp
    then show ?thesis using p i Suc.prems by (simp add: Cons_nth_drop_Suc [symmetric])
  qed
qed

section \<open>Input\<close>

lemma key_action_same [simp]: "key_action keys keys a = a"
  by (simp add: key_action_def Let_def)

lemma input_loop_step:
  "input_loop keys (x # es) w =
     (if player_inp w x \<noteq> None \<and> act w x \<noteq> None \<and> is_player w x
      then input_loop keys es (w\<lparr>act := (act w)(x \<mapsto> key_action keys (the (player_inp w x)) (the (act w x))),
                                  player_inp := (player_inp w)(x \<mapsto> keys)\<rparr>)
      else input_loop keys es w)"
  by (cases "player_inp w x"; cases "act w x") simp_all

lemma input_loop_keeps:
  "(player_inp w e = None \<longrightarrow> player_inp (input_loop keys es w) e = None) \<and>
   (act w e = None \<longrightarrow> act (input_loop keys es w) e = None) \<and>
   is_player (input_loop keys es w) = is_player w \<and> ents (input_loop keys es w) = ents w \<and>
   (e \<in> set es \<longrightarrow> player_inp w e \<noteq> None \<longrightarrow> act w e \<noteq> None \<longrightarrow> is_player w e \<longrightarrow>
      player_inp (input_loop keys es w) e = Some keys) \<and>
   (e \<notin> set es \<longrightarrow> player_inp (input_loop keys es w) e = player_inp w e)"
proof (induction es arbitrary: w)
  case Nil
  then show ?case by simp
next
  case (Cons x es)
  show ?case
  proof (cases "player_inp w x \<noteq> None \<and> act w x \<noteq> None \<and> is_player w x")
    case True
    define w1 where "w1 = w\<lparr>act := (act w)(x \<mapsto> key_action keys (the (player_inp w x)) (the (act w x))),
                            player_inp := (player_inp w)(x \<mapsto> keys)\<rparr>"
    have eq: "input_loop keys (x # es) w = input_loop keys es w1"
      unfolding input_loop_step using True by (simp add: w1_def)
    note IH = Cons.IH [of w1]
    have f: "is_player w1 = is_player w" "ents w1 = ents w" by (simp_all add: w1_def)
    show ?thesis
    proof (cases "e = x")
      case ex: True
      have "player_inp (input_loop keys es w1) e = Some keys"
        using IH ex True by (cases "e \<in> set es") (simp_all add: w1_def)
      then show ?thesis unfolding eq using IH f ex True by auto
    next
      case False
      then have "player_inp w1 e = player_inp w e" "act w1 e = act w e" by (simp_all add: w1_def)
      then show ?thesis unfolding eq using IH f False by simp
    qed
  next
    case False
    then have "input_loop keys (x # es) w = input_loop keys es w" unfolding input_loop_step by auto
    then show ?thesis using Cons.IH [of w] False by (auto simp del: input_loop.simps)
  qed
qed

text \<open>What the loop does to one entity: a player with an input and an action
  gets the action of the key edges between its recorded input and the keys, once,
  however often it is listed; any other entity keeps its action.\<close>

lemma input_loop_act:
  "player_inp w e = Some inp \<Longrightarrow> act w e = Some a \<Longrightarrow> is_player w e \<Longrightarrow>
   act (input_loop keys es w) e = Some (if e \<in> set es then key_action keys inp a else a)"
proof (induction es arbitrary: w inp a)
  case Nil
  then show ?case by simp
next
  case (Cons x es)
  show ?case
  proof (cases "player_inp w x \<noteq> None \<and> act w x \<noteq> None \<and> is_player w x")
    case True
    define w1 where "w1 = w\<lparr>act := (act w)(x \<mapsto> key_action keys (the (player_inp w x)) (the (act w x))),
                            player_inp := (player_inp w)(x \<mapsto> keys)\<rparr>"
    have s: "input_loop keys (x # es) w = input_loop keys es w1"
      using True unfolding input_loop_step w1_def by simp
    show ?thesis
    proof (cases "x = e")
      case True
      then have "player_inp w1 e = Some keys" "act w1 e = Some (key_action keys inp a)" "is_player w1 e"
        using Cons.prems by (simp_all add: w1_def)
      then show ?thesis using Cons.IH [of w1 keys "key_action keys inp a"] s True by simp
    next
      case False
      then have "player_inp w1 e = Some inp" "act w1 e = Some a" "is_player w1 e"
        using Cons.prems by (simp_all add: w1_def)
      then show ?thesis using Cons.IH [of w1 inp a] s False by simp
    qed
  next
    case False
    then have "input_loop keys (x # es) w = input_loop keys es w" unfolding input_loop_step by auto
    moreover have "x \<noteq> e" using False Cons.prems by auto
    ultimately show ?thesis using Cons.IH [OF Cons.prems] by simp
  qed
qed

lemma input_loop_other:
  "\<not> is_player w x \<Longrightarrow> act (input_loop keys es w) x = act w x"
proof (induction es arbitrary: w)
  case (Cons y es)
  then show ?case by (cases "player_inp w y \<noteq> None \<and> act w y \<noteq> None \<and> is_player w y")
    (auto simp: input_loop_step simp del: input_loop.simps)
qed simp

section \<open>Properties of the game\<close>

text \<open>The state \<open>init_roguelike\<close> builds, from an engine whose draws lie in
  \<open>[0, 1)\<close>, has the turn invariant.\<close>

lemma init_turn_inv:
  assumes "\<forall>k. 0 \<le> r k \<and> r k < 1"
  shows "\<exists>st. init_roguelike (empty_state r l) = Some st \<and> turn_inv st"
proof -
  have "draws_ok (empty_state r l)" using assms by (simp add: draws_ok_def empty_state_def)
  then show ?thesis using init_setup by (fastforce simp: setup_inv_def turn_inv_def)
qed

text \<open>C33: input frames and turns keep the turn invariant (engine draws in
  \<open>[0, 1)\<close>, distinct planned cells, every mover on its \<open>MovePos\<close> and seen by
  \<open>checkAttacks\<close>, the player's counter in range) from any state that has it,
  whatever trees the NPCs run and whatever moves they plan; the state
  \<open>init_roguelike\<close> builds has it (\<open>init_turn_inv\<close>).\<close>

theorem reachable_inv:
  assumes "turn_inv st0" "reachable st0 st"
  shows "turn_inv st"
  using assms(2)
proof induction
  case start
  then show ?case using assms(1) .
next
  case (input st keys)
  have "world_inv (player_input_system keys (world st)) = world_inv (world st)"
    unfolding player_input_system_def by (rule world_inv_cong) (simp_all add: input_loop_fields)
  then show ?case using input.IH by (simp add: turn_inv_def)
next
  case (turn st st')
  then show ?case using process_turn_inv by blast
qed

text \<open>A turn in which the NPC's random walk moves it and the player moves: both
  reach a new cell and the invariant holds after it.\<close>

theorem reachable_inv_witness:
  "turn_inv (acted_state RandomWalk 1) \<and>
   (\<exists>st'. reachable (acted_state RandomWalk 1) st' \<and> pos (world st') 1 = Some (-1, 0) \<and>
          pos (world st') 2 = Some (2, 0) \<and> turn_inv st')"
proof -
  have i: "turn_inv (acted_state RandomWalk 1)"
    by (simp add: turn_inv_def draws_ok_def world_inv_def cells_distinct_def movers_wf_def pos_sync_def
        counters_ok_def counter_ok_def acted_state_def demo_state_def demo_world_def)
  define w1 where "w1 = (world (acted_state RandomWalk 1))\<lparr>num_acts := [2 \<mapsto> \<lparr>numActions = 2, curActions = 0\<rparr>]\<rparr>"
  have a: "is_player_acted (world (acted_state RandomWalk 1))"
    by (simp add: is_player_acted_def acted_state_def demo_world_def)
  have u: "upd_player_actions_count (world (acted_state RandomWalk 1)) = Some (True, w1)"
    by (simp add: upd_player_actions_count_def acted_state_def demo_state_def demo_world_def smod_int_alt_def w1_def)
  have pt: "process_turn (acted_state RandomWalk 1) =
      (case trees_loop (ents w1) ((acted_state RandomWalk 1)\<lparr>world := w1\<rparr>) of
         Inl err \<Rightarrow> Inl (TreeError err) | Inr st2 \<Rightarrow> Inr (st2\<lparr>world := process_actions (world st2)\<rparr>))"
    by (simp add: process_turn_def a u)
  obtain st' where t: "process_turn (acted_state RandomWalk 1) = Inr st'"
    and p: "pos (world st') 1 = Some (-1, 0)" "pos (world st') 2 = Some (2, 0)"
    unfolding pt
    by (simp add: w1_def acted_state_def demo_state_def demo_world_def tree_update_def random_walk_update_def
        random_move_def set_action_def move_actions_def process_actions_def mover_def delete_dead_def pickup_def)
  have r: "reachable (acted_state RandomWalk 1) st'" by (rule reachable.turn [OF reachable.start t])
  show ?thesis using i r p reachable_inv [OF i r] by blast
qed

text \<open>C35: \<open>generate_waypoints\<close> with \<open>cycle\<close> builds a ring: walking
  \<open>NextWaypoint\<close> from the entity it returns reads back the given positions in
  order and comes back to that entity.\<close>

theorem generate_waypoints_ring:
  assumes "generate_waypoints ps True st = Some (f, st')"
  shows "wp_walk (world st') (length ps) f = Some (ps, f)"
proof (cases ps)
  case Nil
  then show ?thesis using assms by (simp add: generate_waypoints_def)
next
  case (Cons p qs)
  obtain e st1 where ne: "new_entity st = (e, st1)" by fastforce
  note m = new_entity_max [OF ne]
  define st2 where "st2 = st1\<lparr>world := (world st1)\<lparr>pos := (pos (world st1))(e \<mapsto> p)\<rparr>\<rparr>"
  obtain lst f' st3 where w: "wp_loop qs False e e st2 = (lst, f', st3)" by (cases "wp_loop qs False e e st2") auto
  have mx: "fold max (ents (world st2)) 0 = e" using m by (simp add: st2_def)
  note c = wp_loop_chain [OF mx w]
  have g: "generate_waypoints ps True st = Some (e, st3\<lparr>world := (world st3)\<lparr>next_wp := (next_wp (world st3))(lst \<mapsto> e)\<rparr>\<rparr>)"
    using ne w c m Cons by (simp add: generate_waypoints_def st2_def Let_def)
  then have f: "f = e" "st' = st3\<lparr>world := (world st3)\<lparr>next_wp := (next_wp (world st3))(lst \<mapsto> e)\<rparr>\<rparr>"
    using assms by simp_all
  have "\<forall>i < length ps. pos (world st') (e + i) = Some (ps ! i)"
  proof (intro allI impI)
    fix i assume "i < length ps"
    then show "pos (world st') (e + i) = Some (ps ! i)"
      using c f Cons by (cases i) (simp_all add: st2_def)
  qed
  moreover have "\<forall>i. Suc i < length ps \<longrightarrow> next_wp (world st') (e + i) = Some (e + Suc i)"
    using c f Cons by auto
  moreover have "next_wp (world st') (e + (length ps - 1)) = Some e" using c f Cons by simp
  ultimately show ?thesis using wp_walk_ring [of ps "world st'" e 0 "length ps"] f Cons by simp
qed

theorem generate_waypoints_ring_witness:
  "\<exists>st'. generate_waypoints [(0, 0), (3, 3)] True (demo_state RandomWalk) = Some (3, st') \<and>
     wp_walk (world st') 2 3 = Some ([(0, 0), (3, 3)], 3)"
proof -
  obtain st' where g: "generate_waypoints [(0, 0), (3, 3)] True (demo_state RandomWalk) = Some (3, st')"
    by (simp add: generate_waypoints_def new_entity_def demo_state_def demo_world_def Let_def)
  show ?thesis using g generate_waypoints_ring [OF g] by (auto simp del: wp_walk.simps simp add: numeral_2_eq_2)
qed

text \<open>C36: the keyboard system reacts to key presses, not to held keys: a
  player's action is set by the keys that are down now and were up in the
  previous frame, the later tests of the code winning (skip, then down, up,
  right, left), and kept when no key went down; the keys are recorded for the
  next frame, and no other entity's action changes.\<close>

theorem player_input_frame:
  assumes "e \<in> set (ents w)" "player_inp w e = Some inp" "act w e = Some a" "is_player w e"
  shows "act (player_input_system keys w) e =
           Some (if skip keys \<and> \<not> skip inp then EA_MOVE_SKIP
                 else if down keys \<and> \<not> down inp then EA_MOVE_DOWN
                 else if up keys \<and> \<not> up inp then EA_MOVE_UP
                 else if right keys \<and> \<not> right inp then EA_MOVE_RIGHT
                 else if left keys \<and> \<not> left inp then EA_MOVE_LEFT
                 else a) \<and>
         player_inp (player_input_system keys w) e = Some keys \<and>
         (\<forall>x. \<not> is_player w x \<longrightarrow> act (player_input_system keys w) x = act w x)"
proof -
  have "act (player_input_system keys w) e = Some (key_action keys inp a)"
    using input_loop_act [OF assms(2-4), of keys "ents w"] assms(1) by (simp add: player_input_system_def)
  moreover have "player_inp (player_input_system keys w) e = Some keys"
    using input_loop_keeps [where keys = keys and es = "ents w" and w = w and e = e] assms
    by (simp add: player_input_system_def)
  moreover have "\<forall>x. \<not> is_player w x \<longrightarrow> act (player_input_system keys w) x = act w x"
    by (simp add: player_input_system_def input_loop_other)
  ultimately show ?thesis by (simp add: key_action_def Let_def)
qed

theorem player_input_frame_witness:
  "2 \<in> set (ents demo_world) \<and>
   player_inp demo_world 2 = Some \<lparr>left = False, right = False, up = False, down = False, skip = False\<rparr> \<and>
   act demo_world 2 = Some EA_NOP \<and> is_player demo_world 2 \<and>
   act (player_input_system \<lparr>left = True, right = False, up = False, down = False, skip = False\<rparr> demo_world) 2 =
     Some EA_MOVE_LEFT \<and>
   act (player_input_system \<lparr>left = True, right = False, up = False, down = False, skip = False\<rparr>
          ((player_input_system \<lparr>left = True, right = False, up = False, down = False, skip = False\<rparr> demo_world)
             \<lparr>act := [1 \<mapsto> EA_NOP, 2 \<mapsto> EA_NOP]\<rparr>)) 2 =
     Some EA_NOP"
proof -
  let ?k = "\<lparr>left = True, right = False, up = False, down = False, skip = False\<rparr>"
  let ?w1 = "(player_input_system ?k demo_world)\<lparr>act := [1 \<mapsto> EA_NOP, 2 \<mapsto> EA_NOP]\<rparr>"
  have h: "2 \<in> set (ents demo_world)"
    "player_inp demo_world 2 = Some \<lparr>left = False, right = False, up = False, down = False, skip = False\<rparr>"
    "act demo_world 2 = Some EA_NOP" "is_player demo_world 2"
    by (simp_all add: demo_world_def)
  note f1 = player_input_frame [OF h, of ?k]
  have h2: "2 \<in> set (ents ?w1)" "player_inp ?w1 2 = Some ?k" "act ?w1 2 = Some EA_NOP" "is_player ?w1 2"
    using f1 h input_loop_keeps [where keys = ?k and es = "ents demo_world" and w = demo_world and e = 2]
    by (simp_all add: player_input_system_def)
  note f2 = player_input_frame [OF h2, of ?k]
  show ?thesis using h f1 f2 by simp
qed

end
