(* ===== verification/DMap.thy ===== *)
theory DMap
  imports World Sampler
begin

text \<open>
  The Dijkstra-map archetypes of src/w5: the weights each archetype gives the
  named maps (dmapBeh.cpp), the helper \<open>sgn\<close> and the stream output of a
  \<open>Position\<close> (dijkstraMapGen.h). The map generators are only declared in
  these sources. \<open>DmapWeights\<close> and \<open>RangedAttack\<close> live in \<open>ecsTypes.h\<close>,
  which is not among the sources: a weight is its pair of floats
  \<open>{mult, pow}\<close>, the weights a map from map names to weights, and
  \<open>RangedAttack\<close> its two initialisers.
\<close>

section \<open>Archetypes\<close>

record dmap_wt =
  wt_mult :: real
  wt_pow :: real

type_synonym dmap_weights = "string \<rightharpoonup> dmap_wt"

record dmap_comps =
  dmap_weights :: "eid \<Rightarrow> dmap_weights option"
  ranged_attack :: "eid \<Rightarrow> (int \<times> int) option"

text \<open>\<open>e.set(DmapWeights{{...}})\<close>: the braced list of name and weight pairs.\<close>

definition set_weights :: "eid \<Rightarrow> (string \<times> real \<times> real) list \<Rightarrow> dmap_comps \<Rightarrow> dmap_comps" where
  "set_weights e ws c =
     c\<lparr>dmap_weights := (dmap_weights c)(e \<mapsto>
        map_of (map (\<lambda>(n, m, p). (n, \<lparr>wt_mult = m, wt_pow = p\<rparr>)) ws))\<rparr>"

definition create_player_approacher :: "eid \<Rightarrow> dmap_comps \<Rightarrow> eid \<times> dmap_comps" where
  "create_player_approacher e c = (e, set_weights e [(''approach_map'', 1, 1)] c)"

definition create_player_fleer :: "eid \<Rightarrow> dmap_comps \<Rightarrow> eid \<times> dmap_comps" where
  "create_player_fleer e c = (e, set_weights e [(''flee_map'', 1, 1)] c)"

definition create_archer :: "eid \<Rightarrow> dmap_comps \<Rightarrow> eid \<times> dmap_comps" where
  "create_archer e c =
     (e, (set_weights e [(''player_near'', 1, 1), (''gen_player_visibility'', 2, 1), (''approach_map'', 0.1, 1)] c)
           \<lparr>ranged_attack := (ranged_attack c)(e \<mapsto> (4, 10))\<rparr>)"

definition create_hive_follower :: "eid \<Rightarrow> dmap_comps \<Rightarrow> eid \<times> dmap_comps" where
  "create_hive_follower e c = (e, set_weights e [(''hive_map'', 1, 1)] c)"

definition create_hive_monster :: "eid \<Rightarrow> dmap_comps \<Rightarrow> eid \<times> dmap_comps" where
  "create_hive_monster e c = (e, set_weights e [(''hive_map'', 1, 1), (''approach_map'', 1.8, 0.8)] c)"

section \<open>The sign of a float\<close>

text \<open>\<open>(T(0) < val) - (val < T(0))\<close> on a \<open>float\<close>, comparisons with their IEEE
  meaning.\<close>

fun flt_pos :: "flt \<Rightarrow> bool" where
  "flt_pos (Fin r) = (0 < r)"
| "flt_pos PInf = True"
| "flt_pos NInf = False"
| "flt_pos NaN = False"

fun flt_neg :: "flt \<Rightarrow> bool" where
  "flt_neg (Fin r) = (r < 0)"
| "flt_neg PInf = False"
| "flt_neg NInf = True"
| "flt_neg NaN = False"

definition sgn_t :: "flt \<Rightarrow> int" where
  "sgn_t v = of_bool (flt_pos v) - of_bool (flt_neg v)"

section \<open>Printing a position\<close>

text \<open>\<open>ostream << int\<close> in decimal, with a minus sign for negatives.\<close>

definition digit_char :: "nat \<Rightarrow> char" where
  "digit_char d = char_of (48 + d)"

fun show_nat :: "nat \<Rightarrow> string" where
  "show_nat n = (if n < 10 then [digit_char n] else show_nat (n div 10) @ [digit_char (n mod 10)])"

definition show_int :: "int \<Rightarrow> string" where
  "show_int i = (if i < 0 then CHR ''-'' # show_nat (nat (- i)) else show_nat (nat i))"

text \<open>\<open>ostr << pos.x << ' ' << pos.y\<close>.\<close>

definition show_pos :: "position \<Rightarrow> string" where
  "show_pos p = show_int (fst p) @ CHR '' '' # show_int (snd p)"

text \<open>Reading the output back: decimal digits, an optional minus sign, the two
  numbers split at the space.\<close>

definition is_digit :: "char \<Rightarrow> bool" where
  "is_digit c \<longleftrightarrow> 48 \<le> (of_char c :: nat) \<and> (of_char c :: nat) < 58"

definition read_nat :: "string \<Rightarrow> nat option" where
  "read_nat s = (if s \<noteq> [] \<and> list_all is_digit s
                 then Some (foldl (\<lambda>a c. 10 * a + (of_char c - 48)) 0 s) else None)"

definition read_int :: "string \<Rightarrow> int option" where
  "read_int s = (case s of
                   c # r \<Rightarrow> if c = CHR ''-'' then map_option (\<lambda>n. - int n) (read_nat r)
                           else map_option int (read_nat s)
                 | [] \<Rightarrow> None)"

definition read_pos :: "string \<Rightarrow> position option" where
  "read_pos s =
     (case (read_int (takeWhile (\<lambda>c. c \<noteq> CHR '' '') s), read_int (drop 1 (dropWhile (\<lambda>c. c \<noteq> CHR '' '') s))) of
        (Some x, Some y) \<Rightarrow> Some (x, y)
      | _ \<Rightarrow> None)"

declare show_nat.simps [simp del]

section \<open>Decimal digits\<close>

lemma digit_char_of: "d < 10 \<Longrightarrow> of_char (digit_char d) = 48 + d"
  by (simp add: digit_char_def)

lemma show_nat_digits: "list_all is_digit (show_nat n) \<and> show_nat n \<noteq> []"
proof (induction n rule: show_nat.induct)
  case (1 n)
  have eq: "show_nat n = (if n < 10 then [digit_char n] else show_nat (n div 10) @ [digit_char (n mod 10)])"
    by (rule show_nat.simps)
  show ?case
  proof (cases "n < 10")
    case True
    then show ?thesis using eq by (simp add: is_digit_def digit_char_of)
  next
    case False
    then show ?thesis using eq 1 by (simp add: is_digit_def digit_char_of)
  qed
qed

lemma show_nat_value: "foldl (\<lambda>a c. 10 * a + (of_char c - 48)) 0 (show_nat n) = n"
proof (induction n rule: show_nat.induct)
  case (1 n)
  have eq: "show_nat n = (if n < 10 then [digit_char n] else show_nat (n div 10) @ [digit_char (n mod 10)])"
    by (rule show_nat.simps)
  show ?case
  proof (cases "n < 10")
    case True
    then show ?thesis using eq by (simp add: digit_char_of)
  next
    case False
    then show ?thesis using eq 1 by (simp add: digit_char_of)
  qed
qed

lemma read_show_nat: "read_nat (show_nat n) = Some n"
  using show_nat_digits [of n] show_nat_value [of n] by (simp add: read_nat_def)

lemma show_nat_no_sep: "c \<in> set (show_nat n) \<Longrightarrow> is_digit c"
  using show_nat_digits [of n] by (simp add: list_all_iff)

lemma show_nat_hd: "show_nat n = c # r \<Longrightarrow> c \<noteq> CHR ''-''"
  using show_nat_no_sep [of c n] by (auto simp: is_digit_def)

lemma read_show_int: "read_int (show_int i) = Some i"
proof (cases "i < 0")
  case True
  then show ?thesis by (simp add: show_int_def read_int_def read_show_nat)
next
  case False
  obtain c r where cr: "show_nat (nat i) = c # r" using show_nat_digits [of "nat i"] by (cases "show_nat (nat i)") auto
  then show ?thesis
    using False show_nat_hd [OF cr] read_show_nat [of "nat i"] by (simp add: show_int_def read_int_def)
qed

lemma show_int_no_space: "CHR '' '' \<notin> set (show_int i)"
  using show_nat_no_sep [of "CHR '' ''"] by (auto simp: show_int_def is_digit_def)

section \<open>Properties\<close>

text \<open>C37: the helper \<open>sgn\<close> agrees with the sign function on finite floats,
  is \<open>1\<close> and \<open>-1\<close> on the infinities and \<open>0\<close> on NaN.\<close>

theorem sgn_t_eq_sgn:
  "real_of_int (sgn_t (Fin r)) = sgn r \<and> sgn_t PInf = 1 \<and> sgn_t NInf = -1 \<and> sgn_t NaN = 0"
  by (simp add: sgn_t_def sgn_if)

text \<open>C38: the output of \<open>operator<<\<close> for a position determines it: reading
  the printed text back gives the position.\<close>

theorem read_show_pos: "read_pos (show_pos p) = Some p"
proof -
  obtain x y where p: "p = (x, y)" by (cases p)
  have n: "\<forall>c \<in> set (show_int x). c \<noteq> CHR '' ''" using show_int_no_space [of x] by blast
  have t: "takeWhile (\<lambda>c. c \<noteq> CHR '' '') (show_int x @ CHR '' '' # show_int y) = show_int x"
    using n by (simp add: takeWhile_append2)
  have d: "dropWhile (\<lambda>c. c \<noteq> CHR '' '') (show_int x @ CHR '' '' # show_int y) = CHR '' '' # show_int y"
    using n by (simp add: dropWhile_append2)
  show ?thesis using t d p by (simp add: read_pos_def show_pos_def read_show_int)
qed

end
