(* ===== verification/Tree3.thy ===== *)
theory Tree3
  imports Build
begin

text \<open>
  The behaviour-tree library of src/w3/behLibrary.cpp as a library of its own:
  its node types (\<open>Sequence\<close>, \<open>Selector\<close>, \<open>UtilitySelector\<close> and the
  leaves \<open>MoveToEntity\<close>, \<open>IsLowHp\<close>, \<open>FindEnemy\<close>, \<open>Flee\<close>, \<open>Patrol\<close>,
  \<open>RandomWalk\<close>, \<open>PatchUp\<close>), their \<open>update\<close> and \<open>react\<close>, and the
  factories \<open>sequence\<close> and \<open>selector\<close>. The w3 \<open>CompoundNode\<close> has no
  \<open>react\<close> override, so no w3 node forwards an event; the leaves' \<open>update\<close>
  bodies are textually those of w2 and share their definitions. The embedding
  \<open>w2_of\<close> reads a w3 tree as the w2 tree of the same shape; the lemmas show
  that a w3 tree ticks as its image, so the properties of Tree_Invariants apply
  to it, and that dropping the forwarding changes nothing, because w3 has no
  listener node. They hold by construction (the w3 bodies are the w2 ones), so
  the w3 library carries no claim of its own.
\<close>

datatype node3 =
    Sequence3 "node3 list"
  | Selector3 "node3 list"
  | UtilitySelector3 nat "(nat \<times> node3 \<times> (blackboard \<Rightarrow> real) \<times> string) list"
  | MoveToEntity3 nat
  | IsLowHp3 real
  | FindEnemy3 nat real
  | Flee3 nat
  | Patrol3 nat real
  | RandomWalk3
  | PatchUp3 real

text \<open>\<open>update\<close> of the w3 nodes: the loops of \<open>Sequence::update\<close> and
  \<open>Selector::update\<close>, the utility selector's loop, the leaves' bodies.\<close>

fun tick3 :: "node3 \<Rightarrow> eid \<Rightarrow> (bt_error, ai_state) runner" where
  "tick3 (Sequence3 cs) e = sequence_update (map (\<lambda>c. tick3 c e) cs)"
| "tick3 (Selector3 cs) e = selector_update (map (\<lambda>c. tick3 c e) cs)"
| "tick3 (UtilitySelector3 uid es) e = util_tick uid (map (\<lambda>(n, c, f, l). (n, tick3 c e, f, l)) es) e"
| "tick3 (MoveToEntity3 entityBb) e = move_to_entity_update entityBb e"
| "tick3 (IsLowHp3 threshold) e = is_low_hp_update threshold e"
| "tick3 (FindEnemy3 entityBb distance) e = find_enemy_update entityBb distance e"
| "tick3 (Flee3 entityBb) e = flee_update entityBb e"
| "tick3 (Patrol3 pposBb patrolDist) e = patrol_update pposBb patrolDist e"
| "tick3 RandomWalk3 e = random_walk_update e"
| "tick3 (PatchUp3 hpThreshold) e = patch_up_update hpThreshold e"

text \<open>\<open>react\<close> of the w3 nodes: no w3 class overrides the empty
  \<open>BehNode::react\<close>.\<close>

definition react3 :: "node3 \<Rightarrow> eid \<Rightarrow> event \<Rightarrow> (bt_error, ai_state) reactor" where
  "react3 n e ev = Inr"

text \<open>\<open>CompoundNode::pushNode\<close> of w3, and the factories \<open>sequence()\<close> and
  \<open>selector()\<close> that push the nodes one by one.\<close>

fun push_node3 :: "node3 \<Rightarrow> node3 \<Rightarrow> node3" where
  "push_node3 (Sequence3 ns) n = Sequence3 (ns @ [n])"
| "push_node3 (Selector3 ns) n = Selector3 (ns @ [n])"
| "push_node3 m n = m"

definition sequence3 :: "node3 list \<Rightarrow> node3" where
  "sequence3 nodes = foldl push_node3 (Sequence3 []) nodes"

definition selector3 :: "node3 list \<Rightarrow> node3" where
  "selector3 nodes = foldl push_node3 (Selector3 []) nodes"

text \<open>The constructors of the w3 leaves, as builders threading the name table:
  \<open>MoveToEntity\<close>, \<open>FindEnemy\<close> and \<open>Flee\<close> register an entity slot,
  \<open>Patrol\<close> a position slot and stores the entity's position there.\<close>

definition move_to_entity3 :: "eid \<Rightarrow> string \<Rightarrow> ai_state \<Rightarrow> node3 \<times> ai_state" where
  "move_to_entity3 e bb_name st =
     (case reg_var TEntity e bb_name st of (entityBb, st') \<Rightarrow> (MoveToEntity3 entityBb, st'))"

definition is_low_hp3 :: "real \<Rightarrow> ai_state \<Rightarrow> node3 \<times> ai_state" where
  "is_low_hp3 thres st = (IsLowHp3 thres, st)"

definition find_enemy3 :: "eid \<Rightarrow> real \<Rightarrow> string \<Rightarrow> ai_state \<Rightarrow> node3 \<times> ai_state" where
  "find_enemy3 e in_dist bb_name st =
     (case reg_var TEntity e bb_name st of (entityBb, st') \<Rightarrow> (FindEnemy3 entityBb in_dist, st'))"

definition flee3 :: "eid \<Rightarrow> string \<Rightarrow> ai_state \<Rightarrow> node3 \<times> ai_state" where
  "flee3 e bb_name st =
     (case reg_var TEntity e bb_name st of (entityBb, st') \<Rightarrow> (Flee3 entityBb, st'))"

definition patrol3 :: "eid \<Rightarrow> real \<Rightarrow> string \<Rightarrow> ai_state \<Rightarrow> node3 \<times> ai_state" where
  "patrol3 e patrol_dist bb_name st =
     (case reg_var TPosition e bb_name st of
        (pposBb, st') \<Rightarrow>
          (Patrol3 pposBb patrol_dist,
           case pos (world st') e of
             Some p \<Rightarrow> bb_write pposBb (VPosition p) e st'
           | None \<Rightarrow> st'))"

text \<open>The w2 tree of the same shape.\<close>

fun w2_of :: "node3 \<Rightarrow> node" where
  "w2_of (Sequence3 cs) = Sequence (map w2_of cs)"
| "w2_of (Selector3 cs) = Selector (map w2_of cs)"
| "w2_of (UtilitySelector3 uid es) = UtilitySelector uid (map (\<lambda>(n, c, f, l). (n, w2_of c, f, l)) es)"
| "w2_of (MoveToEntity3 entityBb) = MoveToEntity entityBb"
| "w2_of (IsLowHp3 threshold) = IsLowHp threshold"
| "w2_of (FindEnemy3 entityBb distance) = FindEnemy entityBb distance"
| "w2_of (Flee3 entityBb) = Flee entityBb"
| "w2_of (Patrol3 pposBb patrolDist) = Patrol pposBb patrolDist"
| "w2_of RandomWalk3 = RandomWalk"
| "w2_of (PatchUp3 hpThreshold) = PatchUp hpThreshold"

section \<open>The embedding\<close>

lemma tick3_w2: "tick3 n e = tick (w2_of n) e"
proof (induction n e rule: tick3.induct)
  case (3 uid es e)
  have "(case x of (n, c, f, l) \<Rightarrow> (n, tick3 c e, f, l)) = (case x of (n, c, f, l) \<Rightarrow> (n, tick (w2_of c) e, f, l))"
    if x: "x \<in> set es" for x
  proof -
    obtain n c f l where "x = (n, c, f, l)" by (cases x) auto
    then show ?thesis using 3 x by fastforce
  qed
  then show ?case by (simp add: split_beta cong: map_cong)
qed (simp_all add: comp_def cong: map_cong)

lemma react_all_Inr: "\<forall>r \<in> set rs. r = Inr \<Longrightarrow> react_all rs = Inr"
  by (induction rs) (auto intro!: ext)

lemma react_w2_of: "react (w2_of n) e ev = Inr"
  by (induction n) (auto intro!: react_all_Inr)

lemma w2_of_push: "w2_of (push_node3 m x) = push_node (w2_of m) (w2_of x)"
  by (cases m) simp_all

lemma w2_of_push_node3: "w2_of (foldl push_node3 m ns) = foldl push_node (w2_of m) (map w2_of ns)"
  by (induction ns arbitrary: m) (simp_all add: w2_of_push)

text \<open>The constructors of the w3 leaves register the same blackboard slots and
  leave the same state as the w2 constructors, and build the image of the w2
  node.\<close>

lemma leaf_builders3_w2:
  "map_prod w2_of id (move_to_entity3 e b st) = move_to_entity e b st \<and>
   map_prod w2_of id (is_low_hp3 t st) = is_low_hp t st \<and>
   map_prod w2_of id (find_enemy3 e d b st) = find_enemy e d b st \<and>
   map_prod w2_of id (flee3 e b st) = flee e b st \<and>
   map_prod w2_of id (patrol3 e d b st) = patrol e d b st"
  by (simp add: move_to_entity3_def move_to_entity_def is_low_hp3_def is_low_hp_def find_enemy3_def
      find_enemy_def flee3_def flee_def patrol3_def patrol_def split: prod.split)

end
