(* ===== verification/Spec2Isabelle.thy ===== *)
theory Spec2Isabelle
  imports Setup DMap Tree3
begin

text \<open>
  A verification development for ai_roguelike_hw: behaviour-tree NPCs on a flecs
  grid world with a turn loop. It models, as HOL definitions, the behaviour-tree
  library of src/w2 and src/w3, the game of src/w2/roguelike.cpp (construction,
  input and turns), the weighted sampler of src/w3/randomUtil.hpp and the
  Dijkstra-map archetypes of src/w5, and proves their properties. The claims are
  numbered C1 to C38 in the text block before each.

  \<^bold>\<open>How the parts interact.\<close> A game state (\<open>ai_state\<close>, Tree) holds the world
  (\<open>world\<close>, World: one partial map per flecs component, \<open>ents\<close> the live
  entities in query order), the process-wide blackboard name table, every
  entity's blackboard and behaviour tree, the utility selectors' fields and the
  two random sources. \<open>init_roguelike\<close> (Setup) creates the entities and
  installs their trees with the builders of Build; each frame, the input system
  sets the player's action, and \<open>process_turn\<close> (Turn) counts the player's
  actions, ticks every tree when the count wraps, and resolves the actions
  (Actions). A tick (\<open>tick\<close>, Tree) dispatches over the node datatype: the
  composites are the combinators of Composites, the utility selector is the loop
  of Utility over the sampler of Sampler, the leaves read and write the world and
  the blackboards (Blackboard).

  \<^bold>\<open>Theories, in import order.\<close>
  \<^item> BT_Prelude: \<open>beh_result\<close> (\<open>BehResult\<close>), node methods as runners
    \<open>'s \<Rightarrow> 'e + beh_result \<times> 's\<close> and reactors, the invariant predicate
    \<open>keeps\<close> and its composition lemmas, \<open>remove_nth\<close> (\<open>vector::erase\<close>).
  \<^item> Composites: \<open>Sequence\<close>, \<open>Selector\<close>, \<open>OrNode\<close>, \<open>Parallel\<close>,
    \<open>NotNode\<close> and \<open>CompoundNode::react\<close> of src/w2/behLibrary.cpp, over
    children of any behaviour; C1-C8 relate them to specifications over the
    children's results, counting invocations with probe children.
  \<^item> Sampler: \<open>rnd::sample\<close> with IEEE division by zero and NaN comparisons
    (\<open>flt\<close>), \<open>std::partial_sum\<close>, \<open>std::lower_bound\<close> as the binary search;
    C9-C14 (the binary search equals the linear search; sampling picks the
    interval holding the draw; the draw loop retries a draw past the last
    border and otherwise takes exactly one draw per item, on any borders;
    zero weights; all-zero weights).
  \<^item> Utility: \<open>UtilitySelector::update\<close> (src/w3/behLibrary.cpp); C15-C20
    (it returns, each child runs at most once per tick, its fields stay valid,
    the hysteresis, all children failing, zero-score entries are still run).
  \<^item> Blackboard (from the spec, see below), World (components, \<open>move_pos\<close>,
    search loops, geometry lemmas), Tree (\<open>node\<close>, \<open>tick\<close>, \<open>react\<close>,
    \<open>BehaviourTree::update\<close> and \<open>::event\<close>, all leaves of w2 and w3).
  \<^item> Tree_Invariants: \<open>tick_keeps\<close> and \<open>react_keeps\<close>, one induction over
    the node datatype each, instantiated for well-typed blackboards (C26), the
    frame of a tick (C27) and termination of the sampler (C28); event dispatch as
    delivery to the listeners in depth-first order (C29).
  \<^item> Build: the factories and leaf constructors as builders threading the
    name table, the four behaviours of roguelike.cpp; C21, C23, C25 (the hoard
    listener's shared slot, which trees are well typed, the hoard tree's failing
    first tick).
  \<^item> Leaves: \<open>MoveToEntity\<close> steps one cell towards a live target and
    \<open>Flee\<close> one cell away (C22); what \<open>FindEnemy\<close> stores (C24).
  \<^item> Actions: \<open>is_player_acted\<close>, \<open>upd_player_actions_count\<close> (C++ \<open>%\<close>
    as \<open>smod\<close>, a zero \<open>numActions\<close> as \<open>None\<close>), \<open>process_actions\<close> with
    its deferred blocks; C30 (a mover moves at most one cell), C31 (the counter
    stays in range), C32 (the NPCs plan on exactly one of every \<open>numActions\<close>
    acted turns).
  \<^item> Turn: \<open>process_turn\<close> and the tree pass; C34 (with well-typed trees a
    turn fails only on an unset slot).
  \<^item> Setup: the entity factories, \<open>generate_waypoints\<close>, \<open>init_roguelike\<close>,
    the input system and the states reachable from a state (an inductive
    predicate over input frames and turns in any order); C33 (from any state
    with the turn invariant, whatever trees the NPCs run, every reachable state
    keeps it; \<open>init_turn_inv\<close>: the state \<open>init_roguelike\<close> builds has it),
    C35 (the waypoint ring reads back its positions), C36 (the input system
    sets the player's action from the keys that went down since the last frame
    and records the keys). C33 starts from any state because, in the model, a
    tick of the hoard tree that \<open>init_roguelike\<close> installs fails (C25), so
    from the built state alone no turn in which the NPCs plan would succeed.
  \<^item> DMap: the w5 archetypes, \<open>sgn\<close> (C37, equal to the sign function) and
    \<open>operator<<\<close> for positions (C38, the output reads back).
  \<^item> Tree3: the w3 library as its own node datatype \<open>node3\<close>, with
    \<open>tick3\<close> (\<open>Sequence::update\<close>, \<open>Selector::update\<close> and the shared
    leaf bodies), \<open>react3\<close> (the inherited empty \<open>BehNode::react\<close>), the
    factories and the leaf constructors; \<open>w2_of\<close> reads a w3 tree as the w2
    tree of the same shape; the lemmas show a w3 tree ticks and reacts as its
    image and the constructors register the same slots. These hold by
    construction, so the w3 library has no claim of its own: the claims on
    \<open>tick\<close> apply to it through \<open>tick3_w2\<close>.

  \<^bold>\<open>Bounds and fuel.\<close> The sampler's retry loop and the utility selector's loop
  have no bound in the code; they are \<open>partial_function (option)\<close>. C11 shows,
  on any borders, that the draw loop takes exactly one draw per item when no
  draw falls past the last border. The borders are computed with exact sums: the
  last border of non-negative weights of positive total is then exactly 1, so
  every draw in \<open>[0, 1)\<close> (what \<open>uniform_real_distribution(0, 1)\<close> promises
  and \<open>draws_ok\<close> carries) is accepted, and C15, C26, C28 and C34 prove that
  the selector and the ticks return under that hypothesis. With float32 sums the
  last border can lie below 1 (weights \<open>[0.1, 10, 0.1]\<close> end at 0.99999988);
  a draw above it is then retried, and those claims need the engine to draw
  below the last border eventually. All other loops are structural
  recursion. Integer fields are unbounded \<open>int\<close>; C31 shows the action counter
  stays in \<open>[0, numActions)\<close>, so its increment cannot overflow.

  \<^bold>\<open>Findings.\<close> HoardListener registers its target and its flag under one
  name, so the flag overwrites the provoking entity's slot and the hoard tree's
  first tick reads a bool as an entity (C21, C25); the sampler picks the first
  entry when every score is zero and can pick a zero-score entry (C13, C14,
  C20); the retry of the draw loop is reached only through float rounding of
  the borders (C11); the w3 composites do not forward events, which no pure w3
  tree can observe since w3 has no listener node (\<open>react_w2_of\<close>).

  \<^bold>\<open>Not modelled.\<close> \<open>blackboard.h\<close>, \<open>ecsTypes.h\<close>, \<open>aiUtils.h\<close> and the
  main loop are not among the sources: the blackboard, the component types,
  \<open>dist\<close>, \<open>move_towards\<close>, \<open>inverse_move\<close>, \<open>ecs.entity()\<close> and the
  reachable-state scheduling are written from the spec and marked so in the
  map. The random engine (\<open>rnd::get_engine\<close>, a library engine) is any
  stream of draws. Rendering, \<open>print_stats\<close>, textures and colours are raylib
  I/O. Float rounding is not modelled (reals, with IEEE division by zero and
  NaN). The NPCs' \<open>StateMachine\<close>s are created empty and act as no-ops. The
  Dijkstra-map generators are only declared in src/w5.
\<close>

end
